theory Spec2Isabelle
  imports Complex_Main "HOL-Library.Multiset" "HOL-Library.Sublist"
begin

section \<open>Python values used by the research pipeline\<close>

text \<open>
  The pipeline of \<^verbatim>\<open>research.py\<close> passes plain dictionaries between its stages. A key that
  is absent and a key bound to \<^verbatim>\<open>None\<close> are read alike by the tests \<^verbatim>\<open>d.get(k)\<close>,
  \<^verbatim>\<open>not d[k]\<close> and \<^verbatim>\<open>v is not None\<close>, so one \<open>option\<close> models both for every key read only
  by these. The project count is read by \<^verbatim>\<open>d.get(k, 0)\<close>, which tells the two apart: that
  key has an \<open>option\<close> for its presence and one for its value.
  Exceptions are values: a function that can raise returns \<open>py_error + 'a\<close>, each error
  carrying the text that \<^verbatim>\<open>str(e)\<close> gives.
\<close>

datatype py_error =
    ZeroDivisionError string
  | OverflowError string
  | KeyError string
  | TypeError string
  | Exception string

fun str_of_error :: "py_error \<Rightarrow> string" where
  "str_of_error (ZeroDivisionError m) = m"
| "str_of_error (OverflowError m) = m"
| "str_of_error (KeyError m) = m"
| "str_of_error (TypeError m) = m"
| "str_of_error (Exception m) = m"

subsection \<open>Binary64 arithmetic\<close>

text \<open>
  \<^verbatim>\<open>bond_amount / min_bond\<close> is Python's true division of two integers and
  \<^verbatim>\<open>25 * ratio\<close> a product of doubles: both are the exact result rounded to the nearest
  binary64 value, ties to even. A finite double is modelled by the rational it denotes.
  \<open>rne\<close> rounds a rational to the nearest integer, ties to even; \<open>ulp_exp x\<close> is the
  exponent of the unit in the last place of \<open>x\<close> (53 significant bits, least exponent
  \<open>-1074\<close>); \<open>round_double\<close> rounds to the grid of that spacing. A result of magnitude
  \<open>2 ^ 1024\<close> or more stands for an infinity and is \<open>None\<close>.
\<close>

definition rne :: "rat \<Rightarrow> int" where
  "rne x = (let f = \<lfloor>x\<rfloor>; d = x - of_int f in
            if d < 1 / 2 then f else if 1 / 2 < d then f + 1 else if even f then f else f + 1)"

function ulp_up :: "rat \<Rightarrow> int \<Rightarrow> int" where
  "ulp_up x e = (if x < 2 ^ 53 then e else ulp_up (x / 2) (e + 1))"
  by pat_completeness auto
termination
proof (relation "measure (\<lambda>(x, e). nat \<lfloor>x\<rfloor>)")
  show "wf (measure (\<lambda>(x::rat, e::int). nat \<lfloor>x\<rfloor>))" by simp
next
  fix x :: rat and e :: int
  assume "\<not> x < 2 ^ 53"
  then have x: "2 ^ 53 \<le> x" by simp
  then have x1: "1 \<le> x" by (simp add: order_trans [of 1 "2 ^ 53" x])
  have "\<lfloor>x / 2\<rfloor> < \<lfloor>x\<rfloor>"
  proof -
    have "x / 2 < of_int \<lfloor>x\<rfloor>"
    proof -
      have "x < of_int \<lfloor>x\<rfloor> + 1" by linarith
      moreover have "1 \<le> (of_int \<lfloor>x\<rfloor> :: rat)" using x1 by simp
      ultimately show ?thesis by linarith
    qed
    then show ?thesis by (simp add: floor_less_iff)
  qed
  moreover have "0 < \<lfloor>x\<rfloor>" using x1 by simp
  ultimately show "((x / 2, e + 1), (x, e)) \<in> measure (\<lambda>(x, e). nat \<lfloor>x\<rfloor>)" by simp
qed

function ulp_down :: "rat \<Rightarrow> int \<Rightarrow> int" where
  "ulp_down x e = (if e \<le> - 1074 \<or> 2 ^ 52 \<le> x then e else ulp_down (2 * x) (e - 1))"
  by pat_completeness auto
termination
  by (relation "measure (\<lambda>(x, e). nat (e + 1074))") auto

definition ulp_exp :: "rat \<Rightarrow> int" where
  "ulp_exp x = (if 2 ^ 53 \<le> x then ulp_up x 0 else ulp_down x 0)"

text \<open>The exponent \<open>e\<close> is the one of \<open>x \<ge> 0\<close>: its significand \<open>x / 2 powi e\<close> has 53 bits.\<close>

definition ulp_ok :: "rat \<Rightarrow> int \<Rightarrow> bool" where
  "ulp_ok x e \<longleftrightarrow>
     - 1074 \<le> e \<and> x < 2 ^ 53 * 2 powi e \<and> (- 1074 < e \<longrightarrow> 2 ^ 52 * 2 powi e \<le> x)"

definition round_double :: "rat \<Rightarrow> rat" where
  "round_double x = (if x = 0 then 0 else
     let e = ulp_exp \<bar>x\<bar> in sgn x * (of_int (rne (\<bar>x\<bar> / 2 powi e)) * 2 powi e))"

definition to_double :: "rat \<Rightarrow> rat option" where
  "to_double x = (let y = round_double x in if 2 ^ 1024 \<le> \<bar>y\<bar> then None else Some y)"

text \<open>\<^verbatim>\<open>a / b\<close> on integers: raises on a zero divisor and on a quotient too large for a double.\<close>

definition py_truediv :: "int \<Rightarrow> int \<Rightarrow> py_error + rat" where
  "py_truediv a b =
     (if b = 0 then Inl (ZeroDivisionError ''division by zero'')
      else case to_double (of_int a / of_int b) of
             None \<Rightarrow> Inl (OverflowError ''integer division result too large for a float'')
           | Some r \<Rightarrow> Inr r)"

text \<open>A product of doubles never raises; it may overflow to an infinity (\<open>None\<close>).\<close>

definition py_float_mul :: "rat \<Rightarrow> rat option \<Rightarrow> rat option" where
  "py_float_mul x v = (case v of None \<Rightarrow> None | Some y \<Rightarrow> to_double (x * y))"

text \<open>\<^verbatim>\<open>int(v)\<close> truncates towards zero and raises on an infinity.\<close>

definition py_trunc :: "rat \<Rightarrow> int" where
  "py_trunc x = (if 0 \<le> x then \<lfloor>x\<rfloor> else \<lceil>x\<rceil>)"

definition py_int :: "rat option \<Rightarrow> py_error + int" where
  "py_int v = (case v of
       None \<Rightarrow> Inl (OverflowError ''cannot convert float infinity to integer'')
     | Some x \<Rightarrow> Inr (py_trunc x))"

subsection \<open>Truthiness and strings\<close>

definition truthy_str :: "string option \<Rightarrow> bool" where
  "truthy_str v = (case v of None \<Rightarrow> False | Some s \<Rightarrow> s \<noteq> [])"

definition truthy_int :: "int option \<Rightarrow> bool" where
  "truthy_int v = (case v of None \<Rightarrow> False | Some n \<Rightarrow> n \<noteq> 0)"

text \<open>\<^verbatim>\<open>str.upper\<close> and \<^verbatim>\<open>str.lower\<close> on ASCII text.\<close>

definition upper_char :: "char \<Rightarrow> char" where
  "upper_char c = (let n = (of_char c :: nat) in if 97 \<le> n \<and> n \<le> 122 then char_of (n - 32) else c)"

definition lower_char :: "char \<Rightarrow> char" where
  "lower_char c = (let n = (of_char c :: nat) in if 65 \<le> n \<and> n \<le> 90 then char_of (n + 32) else c)"

definition upper :: "string \<Rightarrow> string" where
  "upper s = map upper_char s"

definition lower :: "string \<Rightarrow> string" where
  "lower s = map lower_char s"

text \<open>
  \<^verbatim>\<open>s.rstrip('/')\<close>, \<^verbatim>\<open>sub in s\<close>, \<^verbatim>\<open>s.find(sub)\<close> and \<^verbatim>\<open>s.strip()\<close>. \<open>is_space\<close> is
  \<^verbatim>\<open>str.isspace\<close> on one character, which is also the class \<^verbatim>\<open>\s\<close> of a pattern on text;
  \<open>is_digit\<close> is the class \<^verbatim>\<open>\d\<close>. Both are given for the characters up to 255.
\<close>

definition rstrip_slash :: "string \<Rightarrow> string" where
  "rstrip_slash s = rev (dropWhile (\<lambda>c. c = CHR ''/'') (rev s))"

fun contains :: "string \<Rightarrow> string \<Rightarrow> bool" where
  "contains sub [] = (sub = [])"
| "contains sub (c # cs) = (prefix sub (c # cs) \<or> contains sub cs)"

fun find_from :: "string \<Rightarrow> string \<Rightarrow> nat \<Rightarrow> nat option" where
  "find_from sub [] i = (if sub = [] then Some i else None)"
| "find_from sub (c # cs) i = (if prefix sub (c # cs) then Some i else find_from sub cs (Suc i))"

definition is_space :: "char \<Rightarrow> bool" where
  "is_space c = (let n = (of_char c :: nat) in
     (9 \<le> n \<and> n \<le> 13) \<or> (28 \<le> n \<and> n \<le> 32) \<or> n = 133 \<or> n = 160)"

definition is_digit :: "char \<Rightarrow> bool" where
  "is_digit c = (let n = (of_char c :: nat) in 48 \<le> n \<and> n \<le> 57)"

definition py_strip :: "string \<Rightarrow> string" where
  "py_strip s = rev (dropWhile is_space (rev (dropWhile is_space s)))"

text \<open>
  \<^verbatim>\<open>float(s)\<close> for a string of digits with at most one point between them: the decimal
  value, rounded; \<open>None\<close> stands for an infinity.
\<close>

definition digits_value :: "string \<Rightarrow> nat" where
  "digits_value s = foldl (\<lambda>n c. 10 * n + (of_char c - 48)) 0 s"

definition decimal_value :: "string \<Rightarrow> rat" where
  "decimal_value s =
     (let ip = takeWhile (\<lambda>c. c \<noteq> CHR ''.'') s;
          fp = drop 1 (dropWhile (\<lambda>c. c \<noteq> CHR ''.'') s)
      in of_nat (digits_value (ip @ fp)) / 10 ^ length fp)"

definition py_float :: "string \<Rightarrow> rat option" where
  "py_float s = to_double (decimal_value s)"

text \<open>\<^verbatim>\<open>str(n)\<close> for an integer.\<close>

definition digit_char :: "nat \<Rightarrow> char" where
  "digit_char d = char_of (48 + d)"

function str_of_nat :: "nat \<Rightarrow> string" where
  "str_of_nat n = (if n < 10 then [digit_char n] else str_of_nat (n div 10) @ [digit_char (n mod 10)])"
  by pat_completeness auto
termination
  by (relation "measure id") auto

definition str_of_int :: "int \<Rightarrow> string" where
  "str_of_int i = (if i < 0 then CHR ''-'' # str_of_nat (nat (- i)) else str_of_nat (nat i))"

section \<open>Profiles\<close>

text \<open>
  One record for the dictionary that \<^verbatim>\<open>_extract_single_profile\<close> creates and the later
  stages update in place. \<open>evidence_page\<close> is the bookkeeping key that
  \<^verbatim>\<open>profile.update(extracted_data)\<close> copies into the profile along with the data.
\<close>

record profile =
  name :: "string option"
  website :: "string option"
  last_checked :: "string option"
  lic_number :: "string option"
  lic_active :: "bool option"
  email :: "string option"
  phone_number :: "string option"
  city :: "string option"
  state :: "string option"
  bond_amount :: "int option"
  evidence_text :: "string option"
  evidence_page :: "string option"
  evidence_url :: "string option"
  tx_projects_past_5yrs :: "int option option"
  score :: "int option"

section \<open>Discovery\<close>

text \<open>
  A candidate is the dictionary an adapter returns. No adapter binds a key to \<^verbatim>\<open>None\<close>:
  \<open>None\<close> is an absent key.
\<close>

record candidate =
  c_name :: "string option"
  c_website :: "string option"
  c_source :: "string option"
  c_lic_number :: "string option"
  c_lic_active :: "bool option"

text \<open>\<^verbatim>\<open>str.title\<close> on ASCII text: a letter is upper case after a non-letter, else lower case.\<close>

definition is_alpha :: "char \<Rightarrow> bool" where
  "is_alpha c = (let n = (of_char c :: nat) in (65 \<le> n \<and> n \<le> 90) \<or> (97 \<le> n \<and> n \<le> 122))"

fun title_from :: "bool \<Rightarrow> string \<Rightarrow> string" where
  "title_from prev [] = []"
| "title_from prev (c # cs) =
     (if is_alpha c then (if prev then lower_char c else upper_char c) # title_from True cs
      else c # title_from False cs)"

definition title :: "string \<Rightarrow> string" where
  "title s = title_from False s"

text \<open>The four simulated adapters. The license board is the only one without a website.\<close>

definition named_candidates :: "string \<Rightarrow> string \<Rightarrow> string list \<Rightarrow> candidate list" where
  "named_candidates label source simulated_domains =
     map (\<lambda>(i, domain).
            \<lparr>c_name = Some (label @ str_of_nat (i + 1)),
             c_website = Some (''https://www.'' @ domain),
             c_source = Some source, c_lic_number = None, c_lic_active = None\<rparr>)
         (enumerate 0 simulated_domains)"

definition search_google_custom :: "string \<Rightarrow> candidate list" where
  "search_google_custom query =
     named_candidates ''Simulated Company '' ''google_search''
       (take 10 [''austinmechanical.com'', ''texasmechanicalservices.com'', ''precisionhvactx.com'',
                 ''elitemechanicalaustin.com'', ''centralteamechanical.com'',
                 ''alliancemechanical.net'', ''texasaircontrol.com'', ''austinhvac.com''])"

definition search_yelp :: "string \<Rightarrow> string \<Rightarrow> string \<Rightarrow> candidate list" where
  "search_yelp trade cty st =
     named_candidates ''Yelp Company '' ''yelp''
       [''austinmechanical.com'', ''capitalcitymechanical.com'', ''abcmechanical.com'',
        ''starrmechanical.com'', ''foxservice.com'']"

definition search_bbb :: "string \<Rightarrow> string \<Rightarrow> string \<Rightarrow> candidate list" where
  "search_bbb trade cty st =
     named_candidates ''BBB Company '' ''bbb''
       [''precisionmechanical.com'', ''reliablemechanical.com'', ''qualitymechanical.com'']"

definition search_state_license_board :: "(nat \<Rightarrow> nat) \<Rightarrow> string \<Rightarrow> string \<Rightarrow> candidate list" where
  "search_state_license_board rand_int trade st =
     map (\<lambda>i. \<lparr>c_name = Some (''Licensed '' @ title trade @ '' Contractor '' @ str_of_nat i),
                c_website = None, c_source = Some ''license_board'',
                c_lic_number = Some (''TX'' @ str_of_nat (rand_int i)),
                c_lic_active = Some True\<rparr>)
         [1 ..< 6]"

text \<open>
  \<^verbatim>\<open>_extract_domain\<close>. \<^verbatim>\<open>urlparse(url).netloc\<close> is library code: the parameter \<open>netloc\<close>,
  \<open>None\<close> where it raises.
\<close>

definition extract_domain :: "(string \<Rightarrow> string option) \<Rightarrow> string \<Rightarrow> string" where
  "extract_domain netloc url =
     (if url = [] then []
      else let url1 = (if \<not> (prefix ''http://'' url \<or> prefix ''https://'' url)
                       then ''https://'' @ url else url)
           in case netloc url1 of
                None \<Rightarrow> []
              | Some domain \<Rightarrow> if prefix ''www.'' domain then drop 4 domain else domain)"

text \<open>\<^verbatim>\<open>candidate.get("website", "")\<close>.\<close>

definition website_or_empty :: "candidate \<Rightarrow> string" where
  "website_or_empty c = (case c_website c of None \<Rightarrow> [] | Some w \<Rightarrow> w)"

text \<open>
  The results of \<^verbatim>\<open>asyncio.gather(..., return_exceptions=True)\<close>: one entry per task, an
  exception or a list. \<open>collect\<close> is the loop that skips the exceptions; \<open>dedupe\<close> is the
  loop over the candidates, the dictionary \<^verbatim>\<open>unique_candidates\<close> kept as the list of its
  items in insertion order.
\<close>

fun collect :: "(py_error + candidate list) list \<Rightarrow> candidate list" where
  "collect [] = []"
| "collect (Inl e # rs) = collect rs"
| "collect (Inr results # rs) = results @ collect rs"

fun dedupe ::
  "(string \<Rightarrow> string option) \<Rightarrow> candidate list \<Rightarrow> (string \<times> candidate) list
     \<Rightarrow> (string \<times> candidate) list" where
  "dedupe netloc [] unique_candidates = unique_candidates"
| "dedupe netloc (c # cs) unique_candidates =
     (let domain = extract_domain netloc (website_or_empty c)
      in dedupe netloc cs
           (if domain \<noteq> [] \<and> map_of unique_candidates domain = None
            then unique_candidates @ [(domain, c)] else unique_candidates))"

definition unique_values ::
  "(string \<Rightarrow> string option) \<Rightarrow> (py_error + candidate list) list \<Rightarrow> candidate list" where
  "unique_values netloc all_results = map snd (dedupe netloc (collect all_results) [])"

definition search_queries :: "string \<Rightarrow> string \<Rightarrow> string \<Rightarrow> string list \<Rightarrow> string list" where
  "search_queries trade cty st keywords =
     [trade @ '' contractors '' @ cty @ '' '' @ st,
      trade @ '' subcontractors '' @ cty @ '' '' @ st]
     @ map (\<lambda>keyword. trade @ '' '' @ keyword @ '' contractors '' @ cty @ '' '' @ st) keywords"

definition search_results ::
  "(nat \<Rightarrow> nat) \<Rightarrow> string \<Rightarrow> string \<Rightarrow> string \<Rightarrow> string list
     \<Rightarrow> (py_error + candidate list) list" where
  "search_results rand_int trade cty st keywords =
     map (\<lambda>query. Inr (search_google_custom query)) (search_queries trade cty st keywords)
     @ [Inr (search_yelp trade cty st), Inr (search_bbb trade cty st),
        Inr (search_state_license_board rand_int trade st)]"

definition discover_candidates ::
  "(string \<Rightarrow> string option) \<Rightarrow> (nat \<Rightarrow> nat) \<Rightarrow> string \<Rightarrow> string \<Rightarrow> string
     \<Rightarrow> string list \<Rightarrow> candidate list" where
  "discover_candidates netloc rand_int trade cty st keywords =
     unique_values netloc (search_results rand_int trade cty st keywords)"

text \<open>
  A stand-in for \<^verbatim>\<open>netloc\<close> on the URLs of the examples below: the text between the two
  slashes after the scheme and the next \<^verbatim>\<open>/\<close>, \<^verbatim>\<open>?\<close> or \<^verbatim>\<open>#\<close>.
\<close>

definition simple_netloc :: "string \<Rightarrow> string option" where
  "simple_netloc url =
     (let rest = (if prefix ''https://'' url then drop 8 url
                  else if prefix ''http://'' url then drop 7 url else [])
      in Some (takeWhile (\<lambda>c. c \<noteq> CHR ''/'' \<and> c \<noteq> CHR ''?'' \<and> c \<noteq> CHR ''#'') rest))"

definition acme_candidate :: candidate where
  "acme_candidate =
     \<lparr>c_name = Some ''Acme Mechanical'', c_website = Some ''https://www.acme.example/home'',
      c_source = Some ''yelp'', c_lic_number = None, c_lic_active = None\<rparr>"

section \<open>Profile extraction\<close>

subsection \<open>The bond patterns\<close>

text \<open>
  The two patterns of \<^verbatim>\<open>bond_patterns\<close>, matched without regard to case:
  \<^verbatim>\<open>bond(?:ed|ing)(?:\s+(?:up\s+)?to)?\s+\$(\d+(?:[,.]\d+)?)\<close>, followed in the first pattern
  by \<^verbatim>\<open>\s+(?:million|m)\<close>. A matcher takes the text at a position and gives the text after
  the match. Every repetition is followed by a character outside its class, so the greedy
  choice is the only one that can match; the alternatives and the optional groups are tried
  in the order of the pattern.
\<close>

definition or_else :: "'a option \<Rightarrow> 'a option \<Rightarrow> 'a option" where
  "or_else a b = (case a of None \<Rightarrow> b | Some x \<Rightarrow> Some x)"

text \<open>A literal, given in lower case.\<close>

fun match_lit :: "string \<Rightarrow> string \<Rightarrow> string option" where
  "match_lit [] text = Some text"
| "match_lit (l # ls) [] = None"
| "match_lit (l # ls) (c # cs) = (if lower_char c = l then match_lit ls cs else None)"

definition spaces1 :: "string \<Rightarrow> string option" where
  "spaces1 text =
     (case text of [] \<Rightarrow> None | c # cs \<Rightarrow> if is_space c then Some (dropWhile is_space cs) else None)"

text \<open>\<^verbatim>\<open>(?:up\s+)?to\<close> and the part of the patterns before the number.\<close>

definition opt_up_to :: "string \<Rightarrow> string option" where
  "opt_up_to text =
     or_else (Option.bind (Option.bind (match_lit ''up'' text) spaces1) (match_lit ''to''))
             (match_lit ''to'' text)"

definition bond_prefix :: "string \<Rightarrow> string option" where
  "bond_prefix text =
     Option.bind (match_lit ''bond'' text) (\<lambda>t1.
     Option.bind (or_else (match_lit ''ed'' t1) (match_lit ''ing'' t1)) (\<lambda>t2.
       or_else (Option.bind (Option.bind (Option.bind (spaces1 t2) opt_up_to) spaces1)
                  (match_lit ''$''))
               (Option.bind (spaces1 t2) (match_lit ''$''))))"

text \<open>The group \<^verbatim>\<open>(\d+(?:[,.]\d+)?)\<close>: the captured number and the text after it.\<close>

definition bond_number :: "string \<Rightarrow> (string \<times> string) option" where
  "bond_number text =
     (let ds = takeWhile is_digit text; r = dropWhile is_digit text
      in if ds = [] then None
         else case r of
                [] \<Rightarrow> Some (ds, r)
              | sep # r1 \<Rightarrow>
                  if (sep = CHR '','' \<or> sep = CHR ''.'') \<and> takeWhile is_digit r1 \<noteq> []
                  then Some (ds @ sep # takeWhile is_digit r1, dropWhile is_digit r1)
                  else Some (ds, r))"

definition bond_match :: "bool \<Rightarrow> string \<Rightarrow> (string \<times> string) option" where
  "bond_match with_unit text =
     Option.bind (bond_prefix text) (\<lambda>t1.
     Option.bind (bond_number t1) (\<lambda>(num, t2).
       if with_unit
       then Option.bind
              (Option.bind (spaces1 t2) (\<lambda>t3. or_else (match_lit ''million'' t3) (match_lit ''m'' t3)))
              (\<lambda>t4. Some (num, t4))
       else Some (num, t2)))"

text \<open>\<^verbatim>\<open>re.findall(pattern, text, re.IGNORECASE)[0]\<close>: the number of the leftmost match.\<close>

fun bond_search :: "bool \<Rightarrow> string \<Rightarrow> string option" where
  "bond_search with_unit [] = None"
| "bond_search with_unit (c # cs) =
     (case bond_match with_unit (c # cs) of
        Some (num, rest) \<Rightarrow> Some num
      | None \<Rightarrow> bond_search with_unit cs)"

subsection \<open>The pass over the pages\<close>

text \<open>
  The dictionary \<^verbatim>\<open>extracted_data\<close> with the two variables \<^verbatim>\<open>best_evidence\<close> and
  \<^verbatim>\<open>best_evidence_page\<close> of \<^verbatim>\<open>_extract_data_from_pages\<close>.
\<close>

record extracted =
  x_email :: "string option"
  x_phone_number :: "string option"
  x_city :: "string option"
  x_state :: "string option"
  x_bond_amount :: "int option"
  best_evidence :: string
  best_evidence_page :: string

text \<open>
  What the function takes from outside. The contact and address patterns are applied by
  \<^verbatim>\<open>re.findall\<close>: the lists of their matches in a text are the fields of \<open>finders\<close>, an address
  match being the pair of its two groups. \<open>get_text\<close> is \<^verbatim>\<open>BeautifulSoup.get_text\<close>. The answer
  of \<^verbatim>\<open>_extract_with_llm\<close>, which catches every exception itself, is a dictionary: a key can
  be absent (\<open>None\<close>) or bound to \<^verbatim>\<open>null\<close> (\<open>Some None\<close>) or to a value.
\<close>

record finders =
  email_findall :: "string \<Rightarrow> string list"
  phone_findall :: "string \<Rightarrow> string list"
  address_findall1 :: "string \<Rightarrow> (string \<times> string) list"
  address_findall2 :: "string \<Rightarrow> (string \<times> string) list"

record llm_extracted =
  l_city :: "string option option"
  l_state :: "string option option"
  l_bond_amount :: "int option option"
  l_email :: "string option option"
  l_phone_number :: "string option option"
  l_evidence_text :: "string option option"

definition first_match :: "string list \<Rightarrow> string option \<Rightarrow> string option" where
  "first_match matches v = (if \<not> truthy_str v then (case matches of [] \<Rightarrow> v | m # ms \<Rightarrow> Some m) else v)"

definition scan_address :: "(string \<times> string) list \<Rightarrow> extracted \<Rightarrow> extracted" where
  "scan_address address_matches d =
     (case address_matches of
        [] \<Rightarrow> d
      | m # ms \<Rightarrow>
          if \<not> (truthy_str (x_city d) \<and> truthy_str (x_state d))
          then d\<lparr>x_city := Some (py_strip (fst m)), x_state := Some (snd m)\<rparr> else d)"

text \<open>
  The value of a matched number: the float of the number without its commas, times
  1,000,000 when the lower-case text contains \<^verbatim>\<open>million\<close> or contains \<^verbatim>\<open>m\<close>.
\<close>

definition bond_value :: "string \<Rightarrow> string \<Rightarrow> rat option" where
  "bond_value text bond_str =
     (let v = py_float (filter (\<lambda>c. c \<noteq> CHR '','') bond_str)
      in if contains ''million'' (lower text) \<or> contains ''m'' (lower text)
         then py_float_mul 1000000 v else v)"

definition note_evidence :: "string \<Rightarrow> string \<Rightarrow> string \<Rightarrow> extracted \<Rightarrow> extracted" where
  "note_evidence text bond_str page_path d =
     (case find_from (lower bond_str) (lower text) 0 of
        None \<Rightarrow> d
      | Some bond_pos \<Rightarrow>
          (let start_pos = bond_pos - 100;
               end_pos = min (length text) (bond_pos + 100);
               evidence = py_strip (take (end_pos - start_pos) (drop start_pos text))
           in if best_evidence d = [] \<or> length (best_evidence d) < length evidence
              then d\<lparr>best_evidence := evidence, best_evidence_page := page_path\<rparr> else d))"

text \<open>
  One pattern of the loop over \<^verbatim>\<open>bond_patterns\<close>: \<open>None\<close> when the loop goes on to the next
  pattern (no match, or the conversion raised and \<^verbatim>\<open>except: continue\<close> caught it), the new
  data when the loop ends with \<^verbatim>\<open>break\<close>. The amount is assigned whatever it was before.
\<close>

definition try_bond :: "bool \<Rightarrow> string \<Rightarrow> string \<Rightarrow> extracted \<Rightarrow> extracted option" where
  "try_bond with_unit text page_path d =
     (case bond_search with_unit text of
        None \<Rightarrow> None
      | Some bond_str \<Rightarrow>
          (case py_int (bond_value text bond_str) of
             Inl e \<Rightarrow> None
           | Inr n \<Rightarrow> Some (note_evidence text bond_str page_path (d\<lparr>x_bond_amount := Some n\<rparr>))))"

definition scan_bond :: "string \<Rightarrow> string \<Rightarrow> extracted \<Rightarrow> extracted" where
  "scan_bond text page_path d =
     (case try_bond True text page_path d of
        Some d1 \<Rightarrow> d1
      | None \<Rightarrow> (case try_bond False text page_path d of Some d1 \<Rightarrow> d1 | None \<Rightarrow> d))"

definition scan_page ::
  "finders \<Rightarrow> (string \<Rightarrow> string) \<Rightarrow> extracted \<Rightarrow> string \<times> string \<Rightarrow> extracted" where
  "scan_page fs get_text d page =
     (let text = get_text (snd page);
          d1 = d\<lparr>x_email := first_match (email_findall fs text) (x_email d)\<rparr>;
          d2 = d1\<lparr>x_phone_number := first_match (phone_findall fs text) (x_phone_number d1)\<rparr>;
          d3 = scan_address (address_findall2 fs text) (scan_address (address_findall1 fs text) d2)
      in scan_bond text (fst page) d3)"

text \<open>
  The fallback: a field that is still empty takes the value of its key in the answer, when
  the key is there.
\<close>

definition fill_str :: "string option option \<Rightarrow> string option \<Rightarrow> string option" where
  "fill_str l v = (if \<not> truthy_str v then (case l of None \<Rightarrow> v | Some w \<Rightarrow> w) else v)"

definition fill_int :: "int option option \<Rightarrow> int option \<Rightarrow> int option" where
  "fill_int l v = (if \<not> truthy_int v then (case l of None \<Rightarrow> v | Some w \<Rightarrow> w) else v)"

definition combined_text :: "(string \<Rightarrow> string) \<Rightarrow> (string \<times> string) list \<Rightarrow> string" where
  "combined_text get_text page_contents =
     concat (map (\<lambda>page. take 5000 (get_text (snd page))) (take 3 page_contents))"

definition empty_extracted :: extracted where
  "empty_extracted =
     \<lparr>x_email = None, x_phone_number = None, x_city = None, x_state = None,
      x_bond_amount = None, best_evidence = [], best_evidence_page = []\<rparr>"

definition llm_fill :: "llm_extracted \<Rightarrow> extracted \<Rightarrow> extracted" where
  "llm_fill r d =
     (let d1 = d\<lparr>x_city := fill_str (l_city r) (x_city d),
                 x_state := fill_str (l_state r) (x_state d),
                 x_bond_amount := fill_int (l_bond_amount r) (x_bond_amount d),
                 x_email := fill_str (l_email r) (x_email d),
                 x_phone_number := fill_str (l_phone_number r) (x_phone_number d)\<rparr>
      in case l_evidence_text r of
           Some (Some e) \<Rightarrow> if e \<noteq> [] \<and> best_evidence d1 = [] then d1\<lparr>best_evidence := e\<rparr> else d1
         | _ \<Rightarrow> d1)"

text \<open>
  \<^verbatim>\<open>_extract_data_from_pages\<close>: the pages are the items of \<^verbatim>\<open>page_contents\<close> in insertion
  order. The result holds \<^verbatim>\<open>evidence_text\<close> and \<^verbatim>\<open>evidence_page\<close> in its last two fields.
\<close>

definition extract_data_from_pages ::
  "finders \<Rightarrow> (string \<Rightarrow> string) \<Rightarrow> (string \<Rightarrow> string \<Rightarrow> llm_extracted)
     \<Rightarrow> (string \<times> string) list \<Rightarrow> string \<Rightarrow> extracted" where
  "extract_data_from_pages fs get_text llm page_contents site =
     (let d = foldl (scan_page fs get_text) empty_extracted page_contents
      in if \<not> (truthy_str (x_city d) \<and> truthy_str (x_state d) \<and> truthy_int (x_bond_amount d))
         then llm_fill (llm (combined_text get_text page_contents) site) d
         else d)"

subsection \<open>One candidate\<close>

definition pages_to_visit :: "string list" where
  "pages_to_visit =
     [[], ''/about'', ''/about-us'', ''/company'', ''/services'', ''/projects'', ''/portfolio'',
      ''/our-work'', ''/case-studies'', ''/contact'', ''/contact-us'']"

text \<open>The pages fetched with status 200, in the order of the paths.\<close>

definition fetch_pages :: "(string \<Rightarrow> string option) \<Rightarrow> string \<Rightarrow> (string \<times> string) list" where
  "fetch_pages fetch site =
     List.map_filter (\<lambda>path. map_option (Pair path) (fetch (rstrip_slash site @ path)))
       pages_to_visit"

text \<open>
  The number of keys of the profile, other than the four excluded ones, that are not
  \<^verbatim>\<open>None\<close>. \<^verbatim>\<open>profile.update(extracted_data)\<close> has put the key \<^verbatim>\<open>evidence_page\<close> into the
  profile, and it is counted.
\<close>

definition populated_fields :: "profile \<Rightarrow> nat" where
  "populated_fields p =
     length (filter id
       [name p \<noteq> None, lic_number p \<noteq> None, lic_active p \<noteq> None, email p \<noteq> None,
        phone_number p \<noteq> None, city p \<noteq> None, state p \<noteq> None, bond_amount p \<noteq> None,
        evidence_page p \<noteq> None])"

definition with_scheme :: "string \<Rightarrow> string" where
  "with_scheme w = (if \<not> (prefix ''http://'' w \<or> prefix ''https://'' w) then ''https://'' @ w else w)"

definition new_profile :: "candidate \<Rightarrow> string \<Rightarrow> string \<Rightarrow> extracted \<Rightarrow> profile" where
  "new_profile c site now d =
     \<lparr>name = Some (case c_name c of None \<Rightarrow> [] | Some n \<Rightarrow> n),
      website = Some site, last_checked = Some now,
      lic_number = c_lic_number c, lic_active = c_lic_active c,
      email = x_email d, phone_number = x_phone_number d, city = x_city d, state = x_state d,
      bond_amount = x_bond_amount d, evidence_text = Some (best_evidence d),
      evidence_page = Some (best_evidence_page d),
      evidence_url = Some (if best_evidence_page d \<noteq> []
                           then rstrip_slash site @ best_evidence_page d else site),
      tx_projects_past_5yrs = None, score = None\<rparr>"

text \<open>\<^verbatim>\<open>_extract_single_profile\<close>; \<open>None\<close> is its \<^verbatim>\<open>return None\<close>.\<close>

definition extract_single_profile ::
  "finders \<Rightarrow> (string \<Rightarrow> string) \<Rightarrow> (string \<Rightarrow> string \<Rightarrow> llm_extracted) \<Rightarrow> (string \<Rightarrow> string option)
     \<Rightarrow> string \<Rightarrow> candidate \<Rightarrow> profile option" where
  "extract_single_profile fs get_text llm fetch now c =
     (if \<not> truthy_str (c_website c) then None
      else let site = with_scheme (the (c_website c));
               page_contents = fetch_pages fetch site
           in if page_contents = [] then None
              else let profile = new_profile c site now
                                   (extract_data_from_pages fs get_text llm page_contents site)
                   in if 4 \<le> populated_fields profile then Some profile else None)"

text \<open>
  \<^verbatim>\<open>extract_profiles\<close>: the batches of five bound the number of concurrent fetches; the
  profiles are appended in the order of the candidates.
\<close>

definition extract_profiles ::
  "finders \<Rightarrow> (string \<Rightarrow> string) \<Rightarrow> (string \<Rightarrow> string \<Rightarrow> llm_extracted) \<Rightarrow> (string \<Rightarrow> string option)
     \<Rightarrow> string \<Rightarrow> candidate list \<Rightarrow> profile list" where
  "extract_profiles fs get_text llm fetch now candidates =
     List.map_filter (extract_single_profile fs get_text llm fetch now) candidates"

section \<open>License verification\<close>

text \<open>
  \<^verbatim>\<open>verify_licenses\<close>. The two random draws made for the \<open>i\<close>-th profile are the
  parameters \<open>rand_int i\<close> (\<^verbatim>\<open>random.randint(10000000, 99999999)\<close>) and \<open>rand_active i\<close>
  (\<^verbatim>\<open>random.random() < 0.8\<close>).
\<close>

definition verify_one :: "nat \<Rightarrow> bool \<Rightarrow> profile \<Rightarrow> profile" where
  "verify_one r a p =
     (let p1 = (if \<not> truthy_str (lic_number p)
                then p\<lparr>lic_number := Some (''TX'' @ str_of_nat r)\<rparr> else p)
      in p1\<lparr>lic_active := Some a\<rparr>)"

fun verify_loop :: "(nat \<Rightarrow> nat) \<Rightarrow> (nat \<Rightarrow> bool) \<Rightarrow> nat \<Rightarrow> profile list \<Rightarrow> profile list" where
  "verify_loop rand_int rand_active i [] = []"
| "verify_loop rand_int rand_active i (p # ps) =
     verify_one (rand_int i) (rand_active i) p # verify_loop rand_int rand_active (Suc i) ps"

definition verify_licenses ::
  "(nat \<Rightarrow> nat) \<Rightarrow> (nat \<Rightarrow> bool) \<Rightarrow> profile list \<Rightarrow> string \<Rightarrow> profile list" where
  "verify_licenses rand_int rand_active profiles st =
     (if upper st \<noteq> ''TX'' then profiles else verify_loop rand_int rand_active 0 profiles)"

section \<open>Project history\<close>

text \<open>
  \<^verbatim>\<open>parse_project_history\<close>. The parameters are what the function takes from outside:
  \<open>fetch url\<close> is the body of a response with status 200 (\<open>None\<close> for another status or an
  exception, both skipped by the code), \<open>get_text\<close> is \<^verbatim>\<open>BeautifulSoup.get_text\<close>,
  \<open>kw_findall keyword text\<close> is \<^verbatim>\<open>len(re.findall(keyword, text, re.IGNORECASE))\<close>, where the
  keyword is a regular expression of the caller and may fail to compile, and \<open>current_year\<close>
  is \<^verbatim>\<open>datetime.now().year\<close>.
\<close>

text \<open>
  \<^verbatim>\<open>re.findall\<close> for an alternation of non-empty literals: at each position the first
  alternative that is a prefix of the rest matches, and the search goes on after the match.
  \<open>skip\<close> counts the characters of the last match still to pass.
\<close>

fun first_alt :: "string list \<Rightarrow> string \<Rightarrow> nat option" where
  "first_alt [] text = None"
| "first_alt (a # alts) text = (if prefix a text then Some (length a) else first_alt alts text)"

fun count_from :: "string list \<Rightarrow> nat \<Rightarrow> string \<Rightarrow> nat" where
  "count_from alts skip [] = 0"
| "count_from alts skip (c # cs) =
     (if 0 < skip then count_from alts (skip - 1) cs
      else case first_alt alts (c # cs) of
             None \<Rightarrow> count_from alts 0 cs
           | Some n \<Rightarrow> Suc (count_from alts (n - 1) cs))"

definition tx_mentions :: "string \<Rightarrow> nat" where
  "tx_mentions text =
     count_from (map lower [''Texas'', ''TX'', ''Austin'', ''Dallas'', ''Houston'', ''San Antonio''])
       0 (lower text)"

definition years :: "int \<Rightarrow> string list" where
  "years current_year = map str_of_int [current_year - 5 .. current_year]"

definition year_mentions :: "int \<Rightarrow> string \<Rightarrow> nat" where
  "year_mentions current_year text =
     sum_list (map (\<lambda>year. count_from [year] 0 text) (years current_year))"

fun keyword_mentions ::
  "(string \<Rightarrow> string \<Rightarrow> py_error + nat) \<Rightarrow> string list \<Rightarrow> string \<Rightarrow> py_error + nat" where
  "keyword_mentions kw_findall [] text = Inr 0"
| "keyword_mentions kw_findall (keyword # keywords) text =
     (case kw_findall keyword text of
        Inl e \<Rightarrow> Inl e
      | Inr n \<Rightarrow> (case keyword_mentions kw_findall keywords text of
                    Inl e \<Rightarrow> Inl e
                  | Inr m \<Rightarrow> Inr (n + m)))"

text \<open>The estimate made from the three tallies.\<close>

definition estimate_count :: "nat \<Rightarrow> nat \<Rightarrow> nat \<Rightarrow> nat" where
  "estimate_count tx year kw =
     (let tx_project_count = min tx year
      in if 0 < kw \<and> 0 < tx_project_count then min (tx_project_count + kw div 2) 10
         else tx_project_count)"

definition count_projects ::
  "(string \<Rightarrow> string) \<Rightarrow> (string \<Rightarrow> string \<Rightarrow> py_error + nat) \<Rightarrow> int \<Rightarrow> string list
     \<Rightarrow> string \<Rightarrow> py_error + nat" where
  "count_projects get_text kw_findall current_year keywords project_html =
     (if project_html = [] then Inr 0
      else let text = get_text project_html
           in case keyword_mentions kw_findall keywords text of
                Inl e \<Rightarrow> Inl e
              | Inr kw \<Rightarrow>
                  Inr (estimate_count (tx_mentions text) (year_mentions current_year text) kw))"

definition project_paths :: "string list" where
  "project_paths = [''/projects'', ''/portfolio'', ''/our-work'', ''/case-studies'']"

fun fetch_first :: "(string \<Rightarrow> string option) \<Rightarrow> string \<Rightarrow> string list \<Rightarrow> string" where
  "fetch_first fetch base [] = []"
| "fetch_first fetch base (path # paths) =
     (case fetch (base @ path) of
        Some html \<Rightarrow> html
      | None \<Rightarrow> fetch_first fetch base paths)"

text \<open>
  The loop over the profiles. A profile without website is left as it is; an exception
  raised while counting ends the call.
\<close>

fun parse_project_history ::
  "(string \<Rightarrow> string option) \<Rightarrow> (string \<Rightarrow> string) \<Rightarrow> (string \<Rightarrow> string \<Rightarrow> py_error + nat) \<Rightarrow> int
     \<Rightarrow> profile list \<Rightarrow> string \<Rightarrow> string list \<Rightarrow> py_error + profile list" where
  "parse_project_history fetch get_text kw_findall current_year [] st keywords = Inr []"
| "parse_project_history fetch get_text kw_findall current_year (p # ps) st keywords =
     (case (if \<not> truthy_str (website p) then Inr p
            else case count_projects get_text kw_findall current_year keywords
                        (fetch_first fetch (rstrip_slash (the (website p))) project_paths) of
                   Inl e \<Rightarrow> Inl e
                 | Inr n \<Rightarrow> Inr (p\<lparr>tx_projects_past_5yrs := Some (Some (int n))\<rparr>)) of
        Inl e \<Rightarrow> Inl e
      | Inr p1 \<Rightarrow>
          (case parse_project_history fetch get_text kw_findall current_year ps st keywords of
             Inl e \<Rightarrow> Inl e
           | Inr ps1 \<Rightarrow> Inr (p1 # ps1)))"

text \<open>
  Stand-ins for the examples below: a page that is plain text, and keywords that are plain
  words, counted like the location tokens.
\<close>

definition plain_text :: "string \<Rightarrow> string" where
  "plain_text html = html"

definition literal_findall :: "string \<Rightarrow> string \<Rightarrow> py_error + nat" where
  "literal_findall keyword text = Inr (count_from [lower keyword] 0 (lower text))"

definition eleven_projects :: string where
  "eleven_projects = ''TX 2024'' @ concat (replicate 10 '', TX 2024'')"

definition history_site :: "string \<Rightarrow> string option" where
  "history_site url = (if url = ''https://acme.example/projects'' then Some eleven_projects else None)"

section \<open>Scoring and ranking\<close>

text \<open>The four factors of \<^verbatim>\<open>score_and_rank\<close>, in the order of the source.\<close>

definition geo_factor :: "profile \<Rightarrow> string \<Rightarrow> string \<Rightarrow> int" where
  "geo_factor p target_city target_state =
     (if city p = Some target_city \<and> state p = Some target_state then 25
      else if state p = Some target_state then 15
      else 0)"

definition lic_factor :: "profile \<Rightarrow> int" where
  "lic_factor p =
     (if lic_active p = Some True then 25
      else if lic_active p = Some False then 0
      else 10)"

definition bonding_factor :: "int \<Rightarrow> int \<Rightarrow> py_error + int" where
  "bonding_factor b min_bond =
     (if min_bond \<le> b then Inr 25
      else case py_truediv b min_bond of
             Inl e \<Rightarrow> Inl e
           | Inr ratio \<Rightarrow> py_int (py_float_mul 25 (Some ratio)))"

definition bond_points :: "profile \<Rightarrow> int \<Rightarrow> py_error + int" where
  "bond_points p min_bond =
     (case bond_amount p of None \<Rightarrow> Inr 0 | Some b \<Rightarrow> bonding_factor b min_bond)"

text \<open>
  \<^verbatim>\<open>profile.get("tx_projects_past_5yrs", 0)\<close> gives 0 for an absent key only. A key bound to
  \<^verbatim>\<open>None\<close> gives \<^verbatim>\<open>None\<close>, and the comparison \<^verbatim>\<open>None >= 5\<close> raises \<^verbatim>\<open>TypeError\<close>.
\<close>

definition get_tx_projects :: "profile \<Rightarrow> int option" where
  "get_tx_projects p = (case tx_projects_past_5yrs p of None \<Rightarrow> Some 0 | Some v \<Rightarrow> v)"

definition none_ge_int :: string where
  "none_ge_int = [CHR 0x27] @ ''>='' @ [CHR 0x27] @ '' not supported between instances of ''
     @ [CHR 0x27] @ ''NoneType'' @ [CHR 0x27] @ '' and '' @ [CHR 0x27] @ ''int'' @ [CHR 0x27]"

definition project_factor :: "profile \<Rightarrow> py_error + int" where
  "project_factor p =
     (case get_tx_projects p of
        None \<Rightarrow> Inl (TypeError none_ge_int)
      | Some tx_projects \<Rightarrow> Inr (if 5 \<le> tx_projects then 25 else 5 * tx_projects))"

definition eligible :: "profile \<Rightarrow> bool" where
  "eligible p \<longleftrightarrow> truthy_str (name p) \<and> truthy_str (website p)"

definition score_of :: "profile \<Rightarrow> string \<Rightarrow> string \<Rightarrow> int \<Rightarrow> py_error + int" where
  "score_of p target_city target_state min_bond =
     (case bond_points p min_bond of
        Inl e \<Rightarrow> Inl e
      | Inr bp \<Rightarrow>
          (case project_factor p of
             Inl e \<Rightarrow> Inl e
           | Inr pf \<Rightarrow> Inr (geo_factor p target_city target_state + lic_factor p + bp + pf)))"

text \<open>
  The loop over the profiles: a profile without name or website is skipped, an exception
  raised while scoring a profile ends the call, a score below 40 is not appended.
\<close>

fun score_loop :: "profile list \<Rightarrow> string \<Rightarrow> string \<Rightarrow> int \<Rightarrow> py_error + profile list" where
  "score_loop [] target_city target_state min_bond = Inr []"
| "score_loop (p # ps) target_city target_state min_bond =
     (if \<not> eligible p then score_loop ps target_city target_state min_bond
      else case score_of p target_city target_state min_bond of
             Inl e \<Rightarrow> Inl e
           | Inr sc \<Rightarrow>
               (case score_loop ps target_city target_state min_bond of
                  Inl e \<Rightarrow> Inl e
                | Inr ranked \<Rightarrow> Inr (if 40 \<le> sc then p\<lparr>score := Some sc\<rparr> # ranked else ranked)))"

definition score_key :: "profile \<Rightarrow> int" where
  "score_key p = (case score p of None \<Rightarrow> 0 | Some s \<Rightarrow> s)"

text \<open>
  \<^verbatim>\<open>list.sort(key=..., reverse=True)\<close> is stable; an insertion sort on the negated key
  gives the same list.
\<close>

definition score_and_rank ::
  "profile list \<Rightarrow> string \<Rightarrow> string \<Rightarrow> int \<Rightarrow> py_error + profile list" where
  "score_and_rank profiles target_city target_state min_bond =
     (case score_loop profiles target_city target_state min_bond of
        Inl e \<Rightarrow> Inl e
      | Inr ranked \<Rightarrow> Inr (sort_key (\<lambda>p. - score_key p) ranked))"

text \<open>A profile with the score the loop stores in it (\<open>projr\<close> reads a returned value).\<close>

definition with_score :: "string \<Rightarrow> string \<Rightarrow> int \<Rightarrow> profile \<Rightarrow> profile" where
  "with_score tc ts min_bond p = p\<lparr>score := Some (projr (score_of p tc ts min_bond))\<rparr>"

text \<open>
  Concrete profiles: the worked example of the specification (bond 2,500,000 against a
  minimum of 5,000,000, active license, exact city and state, three projects), the same
  company with a bond of 7,500,000, and a profile whose bond amount is negative.
\<close>

definition example_profile :: profile where
  "example_profile =
     \<lparr>name = Some ''Acme Mechanical'', website = Some ''https://acme.example'',
      last_checked = None, lic_number = Some ''TX12345678'', lic_active = Some True,
      email = None, phone_number = None, city = Some ''Austin'', state = Some ''TX'',
      bond_amount = Some 2500000, evidence_text = None, evidence_page = None,
      evidence_url = None, tx_projects_past_5yrs = Some (Some 3), score = None\<rparr>"

definition bonded_profile :: profile where
  "bonded_profile = example_profile\<lparr>bond_amount := Some 7500000\<rparr>"

definition negative_bond_profile :: profile where
  "negative_bond_profile =
     \<lparr>name = Some ''Acme Mechanical'', website = Some ''https://acme.example'',
      last_checked = None, lic_number = None, lic_active = None,
      email = None, phone_number = None, city = None, state = None,
      bond_amount = Some (- 100), evidence_text = None, evidence_page = None,
      evidence_url = None, tx_projects_past_5yrs = None, score = None\<rparr>"

section \<open>Jobs\<close>

text \<open>
  \<^verbatim>\<open>main.py\<close>: the store of job records, a dictionary from job identifier to record. A key
  of the record that was never assigned is \<open>None\<close>. The request is the tuple of its fields.
\<close>

datatype job_status = QUEUED | PROCESSING | SUCCEEDED | FAILED

type_synonym job_request = "string \<times> string \<times> string \<times> int \<times> string list"

record job =
  status :: job_status
  request :: job_request
  created_at :: string
  results :: "profile list option"
  completed_at :: "string option"
  error :: "string option"

definition create_research_job ::
  "(string \<rightharpoonup> job) \<Rightarrow> string \<Rightarrow> job_request \<Rightarrow> string \<Rightarrow> (string \<rightharpoonup> job) \<times> string \<times> job_status" where
  "create_research_job jobs_store job_id req now =
     (jobs_store(job_id \<mapsto>
        \<lparr>status = QUEUED, request = req, created_at = now, results = None,
         completed_at = None, error = None\<rparr>),
      job_id, QUEUED)"

text \<open>
  \<^verbatim>\<open>process_research_job\<close>. \<open>run_research\<close> is the pipeline, returning its result or the
  exception it raises; \<open>now\<close> is the time of completion. An identifier that is not in the
  store raises \<^verbatim>\<open>KeyError\<close> in the body and again in the handler.
\<close>

definition process_research_job ::
  "(string \<Rightarrow> string \<Rightarrow> string \<Rightarrow> int \<Rightarrow> string list \<Rightarrow> py_error + profile list) \<Rightarrow> string
     \<Rightarrow> (string \<rightharpoonup> job) \<Rightarrow> string \<Rightarrow> string \<Rightarrow> string \<Rightarrow> string \<Rightarrow> int \<Rightarrow> string list
     \<Rightarrow> py_error + (string \<rightharpoonup> job)" where
  "process_research_job run_research now jobs_store job_id trade cty st min_bond keywords =
     (case jobs_store job_id of
        None \<Rightarrow> Inl (KeyError (CHR 0x27 # job_id @ [CHR 0x27]))
      | Some j \<Rightarrow>
          (let j1 = j\<lparr>status := PROCESSING\<rparr>
           in case run_research trade cty st min_bond keywords of
                Inr res \<Rightarrow>
                  Inr (jobs_store(job_id \<mapsto>
                         j1\<lparr>status := SUCCEEDED, results := Some res, completed_at := Some now\<rparr>))
              | Inl e \<Rightarrow>
                  Inr (jobs_store(job_id \<mapsto>
                         j1\<lparr>status := FAILED, error := Some (str_of_error e)\<rparr>))))"

text \<open>
  For the examples: a store with one queued job, and a pipeline that raises an exception
  whose text is empty, as \<^verbatim>\<open>asyncio.TimeoutError()\<close> and \<^verbatim>\<open>Exception()\<close> have it.
\<close>

definition queued_store :: "string \<rightharpoonup> job" where
  "queued_store =
     fst (create_research_job Map.empty ''job-1''
            (''mechanical'', ''Austin'', ''TX'', 5000000, []) ''2026-01-01T00:00:00'')"

definition empty_error_pipeline ::
  "string \<Rightarrow> string \<Rightarrow> string \<Rightarrow> int \<Rightarrow> string list \<Rightarrow> py_error + profile list" where
  "empty_error_pipeline trade cty st min_bond keywords = Inl (Exception [])"

definition division_error_pipeline ::
  "string \<Rightarrow> string \<Rightarrow> string \<Rightarrow> int \<Rightarrow> string list \<Rightarrow> py_error + profile list" where
  "division_error_pipeline trade cty st min_bond keywords =
     score_and_rank [negative_bond_profile] cty st 0"

text \<open>
  For the examples of the extraction: patterns that match nowhere in the texts used, a
  fallback that fails and so answers with the empty dictionary, a candidate that carries a
  license number, and three sites.
\<close>

definition no_finders :: finders where
  "no_finders =
     \<lparr>email_findall = (\<lambda>text. []), phone_findall = (\<lambda>text. []),
      address_findall1 = (\<lambda>text. []), address_findall2 = (\<lambda>text. [])\<rparr>"

definition no_llm :: "string \<Rightarrow> string \<Rightarrow> llm_extracted" where
  "no_llm text site =
     \<lparr>l_city = None, l_state = None, l_bond_amount = None, l_email = None,
      l_phone_number = None, l_evidence_text = None\<rparr>"

definition licensed_candidate :: candidate where
  "licensed_candidate =
     \<lparr>c_name = Some ''Acme Mechanical'', c_website = Some ''https://acme.example'',
      c_source = Some ''yelp'', c_lic_number = Some ''TX12345678'', c_lic_active = None\<rparr>"

definition bonded_site :: "string \<Rightarrow> string option" where
  "bonded_site url = (if url = ''https://acme.example'' then Some ''Bonded to $5 million'' else None)"

definition two_bond_pages :: "(string \<times> string) list" where
  "two_bond_pages = [([], ''Bonded to $1 million''), (''/about'', ''Bonded to $2 million'')]"

definition company_text :: string where
  "company_text = ''Our company is bonded to $500,000''"

section \<open>Properties of the arithmetic\<close>

declare ulp_up.simps [simp del] ulp_down.simps [simp del] str_of_nat.simps [simp del]

lemma rne_floor_le: "\<lfloor>x\<rfloor> \<le> rne x"
  by (simp add: rne_def Let_def)

lemma rne_le_floor1: "rne x \<le> \<lfloor>x\<rfloor> + 1"
  by (simp add: rne_def Let_def)

lemma rne_of_int [simp]: "rne (of_int n) = n"
  by (simp add: rne_def Let_def)

lemma rne_mono: "x \<le> y \<Longrightarrow> rne x \<le> rne y"
proof -
  assume xy: "x \<le> y"
  have fl: "\<lfloor>x\<rfloor> \<le> \<lfloor>y\<rfloor>" using xy by (rule floor_mono)
  show ?thesis
  proof (cases "\<lfloor>x\<rfloor> < \<lfloor>y\<rfloor>")
    case True
    have "rne x \<le> \<lfloor>x\<rfloor> + 1" by (rule rne_le_floor1)
    also have "\<dots> \<le> \<lfloor>y\<rfloor>" using True by simp
    also have "\<dots> \<le> rne y" by (rule rne_floor_le)
    finally show ?thesis .
  next
    case False
    with fl have eq: "\<lfloor>x\<rfloor> = \<lfloor>y\<rfloor>" by simp
    then have "x - of_int \<lfloor>x\<rfloor> \<le> y - of_int \<lfloor>y\<rfloor>" using xy by simp
    then show ?thesis using eq by (auto simp: rne_def Let_def)
  qed
qed

lemma rne_err: "\<bar>of_int (rne x) - x\<bar> \<le> 1/2"
proof -
  have a: "of_int \<lfloor>x\<rfloor> \<le> x" and b: "x < of_int \<lfloor>x\<rfloor> + 1" by linarith+
  show ?thesis using a b by (auto simp: rne_def Let_def abs_le_iff)
qed

lemma pow2_pos [simp]: "0 < (2::rat) powi e"
  by (simp add: zero_less_power_int)

lemma pow2_Suc: "(2::rat) powi (e + 1) = 2 * 2 powi e"
  by (simp add: power_int_add)

lemma pow2_pred: "2 * (2::rat) powi (e - 1) = 2 powi e"
  using pow2_Suc [of "e - 1"] by simp

lemma ulp_up_spec:
  "e \<le> ulp_up x e \<and> x * 2 powi e < 2 ^ 53 * 2 powi (ulp_up x e) \<and>
   (2 ^ 52 \<le> x \<longrightarrow> 2 ^ 52 * 2 powi (ulp_up x e) \<le> x * 2 powi e)"
proof (induction x e rule: ulp_up.induct)
  case (1 x e)
  show ?case
  proof (cases "x < 2 ^ 53")
    case True
    then show ?thesis by (simp add: ulp_up.simps [of x e])
  next
    case False
    then have big: "2 ^ 52 \<le> x / 2" by simp
    have eq: "ulp_up x e = ulp_up (x / 2) (e + 1)"
      using False by (simp add: ulp_up.simps [of x e])
    have sc: "x / 2 * 2 powi (e + 1) = x * 2 powi e" by (simp add: pow2_Suc)
    from "1.IH" [OF False] big sc show ?thesis by (simp add: eq)
  qed
qed

lemma ulp_down_spec:
  "x < 2 ^ 53 \<Longrightarrow> - 1074 \<le> e \<Longrightarrow>
   - 1074 \<le> ulp_down x e \<and> x * 2 powi e < 2 ^ 53 * 2 powi (ulp_down x e) \<and>
   (- 1074 < ulp_down x e \<longrightarrow> 2 ^ 52 * 2 powi (ulp_down x e) \<le> x * 2 powi e)"
proof (induction x e rule: ulp_down.induct)
  case (1 x e)
  show ?case
  proof (cases "e \<le> - 1074 \<or> 2 ^ 52 \<le> x")
    case True
    then have eq: "ulp_down x e = e" by (simp add: ulp_down.simps [of x e])
    show ?thesis using True "1.prems" by (auto simp: eq)
  next
    case False
    then have eq: "ulp_down x e = ulp_down (2 * x) (e - 1)"
      by (simp add: ulp_down.simps [of x e])
    have sc: "2 * x * 2 powi (e - 1) = x * 2 powi e"
      using pow2_pred [of e] by (simp add: mult.assoc mult.left_commute)
    have p1: "2 * x < 2 ^ 53" using False by simp
    have p2: "- 1074 \<le> e - 1" using False by simp
    from "1.IH" [OF False p1 p2] sc show ?thesis by (simp add: eq)
  qed
qed

lemma ulp_exp_ok: "ulp_ok x (ulp_exp x)"
proof (cases "2 ^ 53 \<le> x")
  case True
  then have "(2::rat) ^ 52 \<le> x" by (simp add: order_trans [of "2 ^ 52" "2 ^ 53" x])
  with ulp_up_spec [of 0 x] True show ?thesis
    by (simp add: ulp_ok_def ulp_exp_def)
next
  case False
  then have "x < 2 ^ 53" by simp
  from ulp_down_spec [OF this, of 0] False show ?thesis
    by (simp add: ulp_ok_def ulp_exp_def)
qed

lemma pow2_mono: "a \<le> b \<Longrightarrow> (2::rat) powi a \<le> 2 powi b"
  by (rule power_int_increasing) simp_all

lemma ulp_ok_le: "ulp_ok x a \<Longrightarrow> ulp_ok y b \<Longrightarrow> x \<le> y \<Longrightarrow> a \<le> b"
proof (rule ccontr)
  assume x: "ulp_ok x a" and y: "ulp_ok y b" and xy: "x \<le> y" and "\<not> a \<le> b"
  then have ba: "b + 1 \<le> a" by simp
  have "- 1074 < a" using ba y by (simp add: ulp_ok_def)
  then have "2 ^ 52 * 2 powi a \<le> x" using x by (simp add: ulp_ok_def)
  moreover have "y < 2 ^ 53 * 2 powi b" using y by (simp add: ulp_ok_def)
  moreover have "(2::rat) powi (b + 1) \<le> 2 powi a" using ba by (rule pow2_mono)
  ultimately show False using xy by (simp add: pow2_Suc)
qed

lemma ulp_ok_unique: "ulp_ok x a \<Longrightarrow> ulp_ok x b \<Longrightarrow> a = b"
  using ulp_ok_le [of x a x b] ulp_ok_le [of x b x a] by simp

lemma ulp_exp_eq: "ulp_ok x e \<Longrightarrow> ulp_exp x = e"
  using ulp_ok_unique [OF ulp_exp_ok] by simp

lemma round_double_pos_eq:
  assumes "0 < x" and "ulp_ok x e"
  shows "round_double x = of_int (rne (x / 2 powi e)) * 2 powi e"
  using assms by (simp add: round_double_def ulp_exp_eq Let_def)

lemma round_double_neg: "round_double (- x) = - round_double x"
  by (simp add: round_double_def Let_def)

lemma rne_0 [simp]: "rne 0 = 0"
  by (simp add: rne_def)

lemma rne_nonneg: "0 \<le> x \<Longrightarrow> 0 \<le> rne x"
  using rne_mono [of 0 x] by simp

lemma rne_eqI: "of_int n - 1/2 < x \<Longrightarrow> x < of_int n + 1/2 \<Longrightarrow> rne x = n"
proof -
  assume lo: "of_int n - 1/2 < x" and hi: "x < of_int n + 1/2"
  show ?thesis
  proof (cases "of_int n \<le> x")
    case True
    then have f: "\<lfloor>x\<rfloor> = n" using hi by (intro floor_unique) simp_all
    show ?thesis using hi by (simp add: rne_def Let_def f)
  next
    case False
    then have f: "\<lfloor>x\<rfloor> = n - 1" using lo by (intro floor_unique) simp_all
    show ?thesis using lo by (simp add: rne_def Let_def f)
  qed
qed

lemma round_double_nonneg: "0 \<le> x \<Longrightarrow> 0 \<le> round_double x"
proof (cases "x = 0")
  case True
  then show ?thesis by (simp add: round_double_def)
next
  case False
  assume "0 \<le> x"
  with False have pos: "0 < x" by simp
  have "0 \<le> rne (x / 2 powi ulp_exp x)" using pos by (intro rne_nonneg) simp
  then show ?thesis
    using pos by (simp add: round_double_pos_eq [OF pos ulp_exp_ok])
qed

lemma round_double_mono_pos:
  assumes x: "0 < x" and xy: "x \<le> y"
  shows "round_double x \<le> round_double y"
proof -
  define a where "a = ulp_exp x"
  define b where "b = ulp_exp y"
  have y: "0 < y" using x xy by simp
  have oka: "ulp_ok x a" and okb: "ulp_ok y b"
    by (simp_all add: a_def b_def ulp_exp_ok)
  have ab: "a \<le> b" using ulp_ok_le [OF oka okb xy] .
  have rx: "round_double x = of_int (rne (x / 2 powi a)) * 2 powi a"
    by (rule round_double_pos_eq [OF x oka])
  have ry: "round_double y = of_int (rne (y / 2 powi b)) * 2 powi b"
    by (rule round_double_pos_eq [OF y okb])
  show ?thesis
  proof (cases "a = b")
    case True
    have "x / 2 powi b \<le> y / 2 powi b" using xy by (simp add: divide_right_mono)
    then have "rne (x / 2 powi b) \<le> rne (y / 2 powi b)" by (rule rne_mono)
    then show ?thesis by (simp add: rx ry True)
  next
    case False
    with ab have lt: "a + 1 \<le> b" by simp
    have "x / 2 powi a \<le> of_int (2 ^ 53)"
      using oka by (simp add: ulp_ok_def field_simps)
    then have "rne (x / 2 powi a) \<le> rne (of_int (2 ^ 53))" by (rule rne_mono)
    then have "rne (x / 2 powi a) \<le> 2 ^ 53" by (simp only: rne_of_int)
    then have "(of_int (rne (x / 2 powi a)) :: rat) \<le> of_int (2 ^ 53)" by (simp only: of_int_le_iff)
    then have "round_double x \<le> 2 ^ 53 * 2 powi a"
      by (simp add: rx)
    also have "\<dots> = 2 ^ 52 * 2 powi (a + 1)" by (simp add: pow2_Suc)
    also have "\<dots> \<le> 2 ^ 52 * 2 powi b" using pow2_mono [OF lt] by simp
    also have "\<dots> \<le> round_double y"
    proof -
      have "- 1074 < b" using lt oka by (simp add: ulp_ok_def)
      then have "of_int (2 ^ 52) \<le> y / 2 powi b"
        using okb by (simp add: ulp_ok_def field_simps)
      then have "rne (of_int (2 ^ 52)) \<le> rne (y / 2 powi b)" by (rule rne_mono)
      then have "2 ^ 52 \<le> rne (y / 2 powi b)" by (simp only: rne_of_int)
      then have "(of_int (2 ^ 52) :: rat) \<le> of_int (rne (y / 2 powi b))" by (simp only: of_int_le_iff)
      then show ?thesis by (simp add: ry)
    qed
    finally show ?thesis .
  qed
qed

lemma round_double_zero [simp]: "round_double 0 = 0"
  by (simp add: round_double_def)

lemma round_double_mono: "x \<le> y \<Longrightarrow> round_double x \<le> round_double y"
proof -
  assume xy: "x \<le> y"
  consider "0 < x" | "x \<le> 0" "0 \<le> y" | "y < 0" by linarith
  then show ?thesis
  proof cases
    case 1
    then show ?thesis using xy by (rule round_double_mono_pos)
  next
    case 2
    have "round_double x \<le> 0"
      using round_double_nonneg [of "- x"] 2 by (simp add: round_double_neg)
    also have "0 \<le> round_double y" using 2 by (intro round_double_nonneg)
    finally show ?thesis .
  next
    case 3
    have "round_double (- y) \<le> round_double (- x)"
      using 3 xy by (intro round_double_mono_pos) simp_all
    then show ?thesis by (simp add: round_double_neg)
  qed
qed

lemma round_double_exact:
  assumes "0 < x" and "ulp_ok x e" and "x = of_int n * 2 powi e"
  shows "round_double x = x"
proof -
  have q: "x / 2 powi e = of_int n" using assms(3) by simp
  have "round_double x = of_int (rne (x / 2 powi e)) * 2 powi e"
    by (rule round_double_pos_eq [OF assms(1,2)])
  also have "\<dots> = of_int n * 2 powi e" by (simp only: q rne_of_int)
  finally show ?thesis by (simp only: assms(3))
qed

lemma round_double_eval:
  assumes "0 < x" and "ulp_ok x e" and "rne (x / 2 powi e) = n"
  shows "round_double x = of_int n * 2 powi e"
  using round_double_pos_eq [OF assms(1,2)] assms(3) by simp

lemma ulp_ok_1: "ulp_ok 1 (- 52)"
  by (simp add: ulp_ok_def power_int_minus field_simps)

lemma round_double_1: "round_double 1 = 1"
  by (rule round_double_exact [OF _ ulp_ok_1, of "2 ^ 52"]) (simp_all add: power_int_minus)

lemma round_double_25: "round_double 25 = 25"
proof (rule round_double_exact [of _ "- 48" "25 * 2 ^ 48"])
  show "ulp_ok 25 (- 48)" by (simp add: ulp_ok_def power_int_minus field_simps)
qed (simp_all add: power_int_minus)

lemma round_double_of_int:
  assumes "\<bar>n\<bar> < 2 ^ 53"
  shows "round_double (of_int n) = of_int n"
proof -
  have pos: "round_double (of_int k) = of_int k" if k: "0 < k" "k < 2 ^ 53" for k :: int
  proof -
    define e where "e = ulp_exp (of_int k)"
    have ok: "ulp_ok (of_int k) e" by (simp add: e_def ulp_exp_ok)
    have e0: "e \<le> 0"
    proof (rule ccontr)
      assume "\<not> e \<le> 0"
      then have "1 \<le> e" by simp
      then have "(2::rat) powi 1 \<le> 2 powi e" by (rule pow2_mono)
      moreover have "2 ^ 52 * 2 powi e \<le> (of_int k :: rat)"
        using ok \<open>1 \<le> e\<close> by (simp add: ulp_ok_def)
      ultimately have "(2::rat) ^ 53 \<le> of_int k" by simp
      moreover have "(of_int k :: rat) < of_int (2 ^ 53)" using k(2) by (simp only: of_int_less_iff)
      ultimately show False by simp
    qed
    have "(of_int k :: rat) = of_int (k * 2 ^ nat (- e)) * 2 powi e"
      using e0 by (simp add: power_int_def field_simps)
    moreover have "0 < (of_int k :: rat)" using k(1) by simp
    ultimately show ?thesis using ok by (intro round_double_exact)
  qed
  consider "n = 0" | "0 < n" | "n < 0" by linarith
  then show ?thesis
  proof cases
    case 1 then show ?thesis by simp
  next
    case 2 then show ?thesis using assms by (intro pos) simp_all
  next
    case 3
    then have "round_double (of_int (- n)) = of_int (- n)" using assms by (intro pos) simp_all
    then show ?thesis using round_double_neg [of "of_int n"] by simp
  qed
qed

lemma py_trunc_mono: "x \<le> y \<Longrightarrow> py_trunc x \<le> py_trunc y"
proof -
  assume xy: "x \<le> y"
  consider "0 \<le> x" | "x < 0" "0 \<le> y" | "y < 0" by linarith
  then show ?thesis
  proof cases
    case 1
    then show ?thesis using xy by (simp add: py_trunc_def floor_mono)
  next
    case 2
    have "\<lceil>x\<rceil> \<le> 0" using 2 by (simp add: ceiling_le_iff)
    also have "0 \<le> \<lfloor>y\<rfloor>" using 2 by simp
    finally have "\<lceil>x\<rceil> \<le> \<lfloor>y\<rfloor>" .
    moreover have "py_trunc x = \<lceil>x\<rceil>" "py_trunc y = \<lfloor>y\<rfloor>"
      using 2 by (simp_all add: py_trunc_def)
    ultimately show ?thesis by simp
  next
    case 3
    then show ?thesis using xy by (simp add: py_trunc_def ceiling_mono)
  qed
qed

lemma py_trunc_of_int [simp]: "py_trunc (of_int n) = n"
  by (simp add: py_trunc_def)

lemma to_double_Some:
  "\<bar>x\<bar> \<le> 25 \<Longrightarrow> to_double x = Some (round_double x) \<and> \<bar>round_double x\<bar> \<le> 25"
proof -
  assume a: "\<bar>x\<bar> \<le> 25"
  have "round_double x \<le> round_double 25" using a by (intro round_double_mono) simp
  moreover have "round_double (- 25) \<le> round_double x" using a by (intro round_double_mono) simp
  ultimately have b: "\<bar>round_double x\<bar> \<le> 25"
    by (simp add: round_double_25 round_double_neg abs_le_iff)
  have "(25::rat) < 2 ^ 1024" by simp
  with b show ?thesis by (simp add: to_double_def Let_def)
qed


lemma py_trunc_neg: "py_trunc (- x) = - py_trunc x"
  by (cases "x = 0") (auto simp: py_trunc_def ceiling_minus floor_minus)

lemma py_trunc_bounds: "\<bar>x\<bar> \<le> of_int n \<Longrightarrow> \<bar>py_trunc x\<bar> \<le> n"
proof -
  assume a: "\<bar>x\<bar> \<le> of_int n"
  have "py_trunc x \<le> py_trunc (of_int n)" using a by (intro py_trunc_mono) simp
  moreover have "py_trunc (of_int (- n)) \<le> py_trunc x" using a by (intro py_trunc_mono) simp
  ultimately show ?thesis by (simp add: abs_le_iff py_trunc_neg)
qed

lemma py_trunc_nonneg: "0 \<le> x \<Longrightarrow> 0 \<le> py_trunc x"
  by (simp add: py_trunc_def)

lemma to_double_eq: "to_double x = Some y \<Longrightarrow> y = round_double x"
  by (simp add: to_double_def Let_def split: if_splits)

lemma to_double_unit:
  assumes "\<bar>q\<bar> \<le> 1"
  shows "to_double q = Some (round_double q)" and "\<bar>round_double q\<bar> \<le> 1"
proof -
  have "round_double q \<le> round_double 1" using assms by (intro round_double_mono) simp
  moreover have "round_double (- 1) \<le> round_double q" using assms by (intro round_double_mono) simp
  ultimately show r1: "\<bar>round_double q\<bar> \<le> 1"
    by (simp add: round_double_1 round_double_neg abs_le_iff)
  have "(1::rat) < 2 ^ 1024" by simp
  with r1 show "to_double q = Some (round_double q)" by (simp add: to_double_def Let_def)
qed

text \<open>The partial-credit branch of the bonding factor.\<close>

lemma bonding_factor_full: "min_bond \<le> b \<Longrightarrow> bonding_factor b min_bond = Inr 25"
  by (simp add: bonding_factor_def)

lemma bonding_factor_partial:
  assumes "b < min_bond" and "\<bar>of_int b / of_int min_bond :: rat\<bar> \<le> 1" and "min_bond \<noteq> 0"
  shows "bonding_factor b min_bond =
           Inr (py_trunc (round_double (25 * round_double (of_int b / of_int min_bond))))"
    and "\<bar>py_trunc (round_double (25 * round_double (of_int b / of_int min_bond)))\<bar> \<le> 25"
proof -
  define q :: rat where "q = of_int b / of_int min_bond"
  have t1: "to_double q = Some (round_double q)" and r1: "\<bar>round_double q\<bar> \<le> 1"
    using to_double_unit [of q] assms(2) by (simp_all add: q_def)
  have "\<bar>25 * round_double q\<bar> \<le> 25" using r1 by (simp add: abs_mult)
  from to_double_Some [OF this]
  have t2: "to_double (25 * round_double q) = Some (round_double (25 * round_double q))"
    and b: "\<bar>round_double (25 * round_double q)\<bar> \<le> 25" by simp_all
  show "bonding_factor b min_bond =
           Inr (py_trunc (round_double (25 * round_double (of_int b / of_int min_bond))))"
    using assms(1,3) t1 t2
    by (simp add: bonding_factor_def py_truediv_def py_float_mul_def py_int_def q_def)
  show "\<bar>py_trunc (round_double (25 * round_double (of_int b / of_int min_bond)))\<bar> \<le> 25"
    using b unfolding q_def by (intro py_trunc_bounds) simp
qed

lemma bonding_factor_else:
  assumes "b < min_bond" and "bonding_factor b min_bond = Inr f"
  shows "min_bond \<noteq> 0 \<and>
         f = py_trunc (round_double (25 * round_double (of_int b / of_int min_bond)))"
  using assms
  by (auto simp: bonding_factor_def py_truediv_def py_float_mul_def py_int_def
           dest!: to_double_eq split: if_splits option.splits)

lemma unit_ratio: "0 \<le> b \<Longrightarrow> b < m \<Longrightarrow> \<bar>of_int b / of_int m :: rat\<bar> \<le> 1"
  by (simp add: abs_le_iff) 

lemma bonding_factor_le:
  assumes "0 \<le> min_bond" and "bonding_factor b min_bond = Inr f"
  shows "f \<le> 25"
proof (cases "min_bond \<le> b")
  case True
  then show ?thesis using assms(2) by (simp add: bonding_factor_def)
next
  case False
  then have lt: "b < min_bond" by simp
  from bonding_factor_else [OF lt assms(2)]
  have m0: "min_bond \<noteq> 0"
    and f: "f = py_trunc (round_double (25 * round_double (of_int b / of_int min_bond)))"
    by simp_all
  have mpos: "0 < min_bond" using m0 assms(1) by simp
  have "(of_int b / of_int min_bond :: rat) \<le> 1" using lt mpos by simp
  then have "round_double (of_int b / of_int min_bond) \<le> round_double 1"
    by (rule round_double_mono)
  then have "25 * round_double (of_int b / of_int min_bond) \<le> 25"
    by (simp add: round_double_1)
  then have "round_double (25 * round_double (of_int b / of_int min_bond)) \<le> round_double 25"
    by (rule round_double_mono)
  then have "py_trunc (round_double (25 * round_double (of_int b / of_int min_bond))) \<le> py_trunc 25"
    unfolding round_double_25 by (rule py_trunc_mono)
  then show ?thesis by (simp add: f py_trunc_def)
qed

lemma bonding_factor_mono:
  assumes "0 < min_bond" and "b1 \<le> b2"
    and "bonding_factor b1 min_bond = Inr f1" and "bonding_factor b2 min_bond = Inr f2"
  shows "f1 \<le> f2"
proof (cases "min_bond \<le> b2")
  case True
  then have "f2 = 25" using assms(4) by (simp add: bonding_factor_def)
  moreover have "f1 \<le> 25" using assms(1,3) by (intro bonding_factor_le [of min_bond b1]) simp_all
  ultimately show ?thesis by simp
next
  case False
  then have l2: "b2 < min_bond" and l1: "b1 < min_bond" using assms(2) by simp_all
  from bonding_factor_else [OF l1 assms(3)] bonding_factor_else [OF l2 assms(4)]
  have f1: "f1 = py_trunc (round_double (25 * round_double (of_int b1 / of_int min_bond)))"
    and f2: "f2 = py_trunc (round_double (25 * round_double (of_int b2 / of_int min_bond)))"
    by simp_all
  have "(of_int b1 / of_int min_bond :: rat) \<le> of_int b2 / of_int min_bond"
    using assms(1,2) by (simp add: divide_right_mono)
  then have "round_double (of_int b1 / of_int min_bond) \<le> round_double (of_int b2 / of_int min_bond)"
    by (rule round_double_mono)
  then have "25 * round_double (of_int b1 / of_int min_bond)
               \<le> 25 * round_double (of_int b2 / of_int min_bond)" by simp
  then have "round_double (25 * round_double (of_int b1 / of_int min_bond))
               \<le> round_double (25 * round_double (of_int b2 / of_int min_bond))"
    by (rule round_double_mono)
  then show ?thesis unfolding f1 f2 by (rule py_trunc_mono)
qed

lemma bonding_factor_total:
  assumes "0 \<le> min_bond" and "0 \<le> b"
  shows "\<exists>f. bonding_factor b min_bond = Inr f \<and> 0 \<le> f \<and> f \<le> 25"
proof (cases "min_bond \<le> b")
  case True
  then show ?thesis by (simp add: bonding_factor_def)
next
  case False
  then have lt: "b < min_bond" by simp
  then have m0: "min_bond \<noteq> 0" using assms(2) by simp
  have u: "\<bar>of_int b / of_int min_bond :: rat\<bar> \<le> 1" using assms(2) lt by (rule unit_ratio)
  have nn: "0 \<le> py_trunc (round_double (25 * round_double (of_int b / of_int min_bond)))"
  proof -
    have "(0::rat) \<le> of_int b / of_int min_bond" using assms by simp
    then have "0 \<le> round_double (of_int b / of_int min_bond)" by (rule round_double_nonneg)
    then have "0 \<le> 25 * round_double (of_int b / of_int min_bond)" by simp
    then have "0 \<le> round_double (25 * round_double (of_int b / of_int min_bond))"
      by (rule round_double_nonneg)
    then show ?thesis by (rule py_trunc_nonneg)
  qed
  from bonding_factor_partial [OF lt u m0] nn show ?thesis by (simp add: abs_le_iff)
qed

section \<open>Properties of scoring\<close>

lemma geo_factor_range: "0 \<le> geo_factor p tc ts \<and> geo_factor p tc ts \<le> 25"
  by (simp add: geo_factor_def)

lemma lic_factor_range: "0 \<le> lic_factor p \<and> lic_factor p \<le> 25"
  by (simp add: lic_factor_def)

lemma project_factor_le: "project_factor p = Inr pf \<Longrightarrow> pf \<le> 25"
  by (auto simp: project_factor_def split: option.splits if_splits)

lemma project_factor_error:
  "project_factor p = Inl e \<Longrightarrow> e = TypeError none_ge_int \<and> tx_projects_past_5yrs p = Some None"
  by (auto simp: project_factor_def get_tx_projects_def split: option.splits)

lemma bond_points_le:
  assumes "0 \<le> min_bond \<or> (\<forall>b. bond_amount p = Some b \<longrightarrow> min_bond \<le> b)"
    and "bond_points p min_bond = Inr bp"
  shows "bp \<le> 25"
proof (cases "bond_amount p")
  case None
  then show ?thesis using assms(2) by (simp add: bond_points_def)
next
  case (Some b)
  then have f: "bonding_factor b min_bond = Inr bp" using assms(2) by (simp add: bond_points_def)
  show ?thesis
  proof (cases "0 \<le> min_bond")
    case True
    then show ?thesis using f by (rule bonding_factor_le)
  next
    case False
    with assms(1) Some have "min_bond \<le> b" by simp
    then show ?thesis using f by (simp add: bonding_factor_def)
  qed
qed

lemma score_of_le:
  assumes "0 \<le> min_bond \<or> (\<forall>b. bond_amount p = Some b \<longrightarrow> min_bond \<le> b)"
    and "score_of p tc ts min_bond = Inr s"
  shows "s \<le> 100"
proof -
  from assms(2) obtain bp pf where bp: "bond_points p min_bond = Inr bp"
    and pf: "project_factor p = Inr pf"
    and s: "s = geo_factor p tc ts + lic_factor p + bp + pf"
    by (auto simp: score_of_def split: sum.splits)
  from bond_points_le [OF assms(1) bp] project_factor_le [OF pf]
    geo_factor_range [of p tc ts] lic_factor_range [of p]
  show ?thesis by (simp add: s)
qed

lemma score_loop_Inr:
  "score_loop ps tc ts min_bond = Inr ranked \<Longrightarrow>
     ranked = filter (\<lambda>q. 40 \<le> score_key q) (map (with_score tc ts min_bond) (filter eligible ps))
     \<and> (\<forall>p \<in> set ps. eligible p \<longrightarrow> (\<exists>s. score_of p tc ts min_bond = Inr s))"
proof (induction ps arbitrary: ranked)
  case Nil
  then show ?case by simp
next
  case (Cons p ps)
  show ?case
  proof (cases "eligible p")
    case False
    with Cons show ?thesis by simp
  next
    case True
    with Cons.prems obtain sc rest where sc: "score_of p tc ts min_bond = Inr sc"
      and rest: "score_loop ps tc ts min_bond = Inr rest"
      and r: "ranked = (if 40 \<le> sc then p\<lparr>score := Some sc\<rparr> # rest else rest)"
      by (auto split: sum.splits)
    from Cons.IH [OF rest] True sc r show ?thesis
      by (simp add: with_score_def score_key_def)
  qed
qed

lemma score_loop_error:
  "score_loop ps tc ts min_bond = Inl e \<Longrightarrow>
     \<exists>p \<in> set ps. eligible p \<and> score_of p tc ts min_bond = Inl e"
proof (induction ps)
  case Nil
  then show ?case by simp
next
  case (Cons p ps)
  show ?case
  proof (cases "eligible p")
    case False
    with Cons show ?thesis by simp
  next
    case True
    show ?thesis
    proof (cases "score_of p tc ts min_bond")
      case (Inl e')
      with True Cons.prems have "e' = e" by simp
      with Inl True show ?thesis by simp
    next
      case (Inr sc)
      with True Cons.prems have "score_loop ps tc ts min_bond = Inl e"
        by (simp split: sum.splits)
      from Cons.IH [OF this] show ?thesis by auto
    qed
  qed
qed

lemma score_loop_total:
  "(\<forall>p \<in> set ps. eligible p \<longrightarrow> (\<exists>s. score_of p tc ts min_bond = Inr s)) \<Longrightarrow>
     \<exists>ranked. score_loop ps tc ts min_bond = Inr ranked"
proof (induction ps)
  case Nil
  then show ?case by simp
next
  case (Cons p ps)
  then obtain rest where rest: "score_loop ps tc ts min_bond = Inr rest" by auto
  show ?case
  proof (cases "eligible p")
    case False
    with rest show ?thesis by simp
  next
    case True
    with Cons.prems obtain s where "score_of p tc ts min_bond = Inr s" by auto
    with rest True show ?thesis by simp
  qed
qed

text \<open>
  The two branches of the bonding factor for a non-negative bond amount and a non-negative
  minimum: either the minimum is met and nothing is divided, or the bond amount is below
  the minimum, the minimum is at least 1 and the division gives a ratio.
\<close>

lemma bonding_factor_branch:
  assumes "0 \<le> min_bond" and "0 \<le> b"
  shows "if min_bond \<le> b then bonding_factor b min_bond = Inr 25
         else b < min_bond \<and> 1 \<le> min_bond
              \<and> (\<exists>ratio. py_truediv b min_bond = Inr ratio
                    \<and> bonding_factor b min_bond = py_int (py_float_mul 25 (Some ratio)))"
proof (cases "min_bond \<le> b")
  case True
  then show ?thesis by (simp add: bonding_factor_def)
next
  case False
  then have lt: "b < min_bond" by simp
  with assms(2) have m1: "1 \<le> min_bond" by simp
  have u: "\<bar>of_int b / of_int min_bond :: rat\<bar> \<le> 1" using assms(2) lt by (rule unit_ratio)
  have d: "py_truediv b min_bond = Inr (round_double (of_int b / of_int min_bond))"
    using m1 to_double_unit(1) [OF u] by (simp add: py_truediv_def)
  from False lt m1 d show ?thesis by (simp add: bonding_factor_def)
qed

lemma score_of_error:
  assumes "0 \<le> min_bond" and "\<forall>b. bond_amount p = Some b \<longrightarrow> 0 \<le> b"
    and "score_of p tc ts min_bond = Inl e"
  shows "e = TypeError none_ge_int"
proof -
  have "\<exists>bp. bond_points p min_bond = Inr bp"
  proof (cases "bond_amount p")
    case None
    then show ?thesis by (simp add: bond_points_def)
  next
    case (Some b)
    with assms(2) have "0 \<le> b" by simp
    from bonding_factor_total [OF assms(1) this] Some show ?thesis
      by (auto simp: bond_points_def)
  qed
  then obtain bp where "bond_points p min_bond = Inr bp" ..
  with assms(3) have "project_factor p = Inl e"
    by (simp add: score_of_def split: sum.splits)
  then show ?thesis using project_factor_error by blast
qed

lemma sorted_desc_sort_key:
  "sorted_wrt (\<lambda>a b. score_key b \<le> score_key a) (sort_key (\<lambda>p. - score_key p) xs)"
proof -
  have "sorted (map (\<lambda>p. - score_key p) (sort_key (\<lambda>p. - score_key p) xs))"
    by (rule sorted_sort_key)
  then show ?thesis by (simp add: sorted_map)
qed

lemma to_double_of_int:
  assumes "\<bar>n\<bar> < 2 ^ 53"
  shows "to_double (of_int n) = Some (of_int n)"
proof -
  have "\<bar>of_int n :: rat\<bar> < of_int (2 ^ 53)"
    using assms by (simp only: of_int_abs [symmetric] of_int_less_iff)
  also have "(of_int (2 ^ 53) :: rat) \<le> 2 ^ 1024" by simp
  finally show ?thesis
    by (simp add: to_double_def round_double_of_int [OF assms])
qed

lemma bonding_factor_example: "bonding_factor 2500000 5000000 = Inr 12"
proof -
  have half: "round_double (1 / 2) = 1 / 2"
  proof (rule round_double_exact [of _ "- 53" "2 ^ 52"])
    show "ulp_ok (1 / 2) (- 53)" by (simp add: ulp_ok_def power_int_minus)
  qed (simp_all add: power_int_minus)
  have prod: "round_double (25 / 2) = 25 / 2"
  proof (rule round_double_exact [of _ "- 49" "25 * 2 ^ 48"])
    show "ulp_ok (25 / 2) (- 49)" by (simp add: ulp_ok_def power_int_minus)
  qed (simp_all add: power_int_minus)
  have u: "\<bar>of_int 2500000 / of_int 5000000 :: rat\<bar> \<le> 1" by simp
  have "bonding_factor 2500000 5000000 =
          Inr (py_trunc (round_double (25 * round_double (of_int 2500000 / of_int 5000000))))"
    by (rule bonding_factor_partial(1) [OF _ u]) simp_all
  also have "(of_int 2500000 / of_int 5000000 :: rat) = 1 / 2" by simp
  finally have "bonding_factor 2500000 5000000 = Inr (py_trunc (25 / 2))"
    by (simp add: half prod)
  moreover have "\<lfloor>25 / 2 :: rat\<rfloor> = 12" by (rule floor_unique) simp_all
  ultimately show ?thesis by (simp add: py_trunc_def)
qed

lemma bonding_factor_negative: "bonding_factor (- 100) (- 1) = Inr 2500"
proof -
  have a: "to_double 100 = Some 100" using to_double_of_int [of 100] by simp
  have b: "to_double 2500 = Some 2500" using to_double_of_int [of 2500] by simp
  show ?thesis
    by (simp add: bonding_factor_def py_truediv_def py_float_mul_def py_int_def a b py_trunc_def)
qed

lemma score_of_example: "score_of example_profile ''Austin'' ''TX'' 5000000 = Inr 77"
  by (simp add: score_of_def bond_points_def bonding_factor_example geo_factor_def
      lic_factor_def project_factor_def get_tx_projects_def example_profile_def)

lemma score_of_bonded: "score_of bonded_profile ''Austin'' ''TX'' 5000000 = Inr 90"
  by (simp add: score_of_def bond_points_def bonding_factor_def geo_factor_def
      lic_factor_def project_factor_def get_tx_projects_def example_profile_def
      bonded_profile_def)

lemma eligible_examples: "eligible example_profile \<and> eligible bonded_profile"
  by (simp add: eligible_def truthy_str_def example_profile_def bonded_profile_def)

lemma score_key_update [simp]: "score_key (p\<lparr>score := Some s\<rparr>) = s"
  by (simp add: score_key_def)

lemma score_example:
  "score_and_rank [example_profile, bonded_profile] ''Austin'' ''TX'' 5000000 =
     Inr [bonded_profile\<lparr>score := Some 90\<rparr>, example_profile\<lparr>score := Some 77\<rparr>]"
  by (simp add: score_and_rank_def eligible_examples score_of_example score_of_bonded)

text \<open>
  Claim C10. For every \<open>min_bond \<ge> 0\<close> and every profile list in which each present
  \<open>bond_amount\<close> is \<open>\<ge> 0\<close>, \<^verbatim>\<open>score_and_rank\<close> never divides by zero: it does not raise
  \<^verbatim>\<open>ZeroDivisionError\<close>, and for every profile with a bond amount the bonding factor either
  is 25 without a division (\<open>min_bond \<le> bond_amount\<close>) or is computed from the ratio that the
  division \<^verbatim>\<open>bond_amount / min_bond\<close> returns, and then \<open>bond_amount < min_bond\<close> and
  \<open>min_bond \<ge> 1\<close>.
\<close>

theorem score_and_rank_no_zero_division:
  assumes "0 \<le> min_bond"
    and "\<forall>p \<in> set profiles. \<forall>b. bond_amount p = Some b \<longrightarrow> 0 \<le> b"
  shows "(\<forall>msg. score_and_rank profiles tc ts min_bond \<noteq> Inl (ZeroDivisionError msg))
       \<and> (\<forall>p \<in> set profiles. \<forall>b. bond_amount p = Some b \<longrightarrow>
            (if min_bond \<le> b then bond_points p min_bond = Inr 25
             else b < min_bond \<and> 1 \<le> min_bond
                  \<and> (\<exists>ratio. py_truediv b min_bond = Inr ratio
                        \<and> bond_points p min_bond = py_int (py_float_mul 25 (Some ratio)))))"
proof (intro conjI allI ballI impI)
  fix msg
  show "score_and_rank profiles tc ts min_bond \<noteq> Inl (ZeroDivisionError msg)"
  proof
    assume "score_and_rank profiles tc ts min_bond = Inl (ZeroDivisionError msg)"
    then have "score_loop profiles tc ts min_bond = Inl (ZeroDivisionError msg)"
      by (simp add: score_and_rank_def split: sum.splits)
    from score_loop_error [OF this] obtain p where p: "p \<in> set profiles"
      and e: "score_of p tc ts min_bond = Inl (ZeroDivisionError msg)" by blast
    from assms(2) p have "\<forall>b. bond_amount p = Some b \<longrightarrow> 0 \<le> b" by blast
    from score_of_error [OF assms(1) this e] show False by simp
  qed
next
  fix p b
  assume p: "p \<in> set profiles" and b: "bond_amount p = Some b"
  with assms(2) have "0 \<le> b" by blast
  from bonding_factor_branch [OF assms(1) this] b
  show "if min_bond \<le> b then bond_points p min_bond = Inr 25
        else b < min_bond \<and> 1 \<le> min_bond
             \<and> (\<exists>ratio. py_truediv b min_bond = Inr ratio
                   \<and> bond_points p min_bond = py_int (py_float_mul 25 (Some ratio)))"
    by (simp add: bond_points_def)
qed

theorem score_and_rank_no_zero_division_witness:
  "score_and_rank [example_profile, bonded_profile] ''Austin'' ''TX'' 5000000
     \<noteq> Inl (ZeroDivisionError ''division by zero'')
   \<and> bond_points bonded_profile 5000000 = Inr 25
   \<and> (\<exists>ratio. py_truediv 2500000 5000000 = Inr ratio
         \<and> bond_points example_profile 5000000 = py_int (py_float_mul 25 (Some ratio)))"
proof -
  have m: "(0::int) \<le> 5000000" by simp
  have h: "\<forall>p \<in> set [example_profile, bonded_profile]. \<forall>b. bond_amount p = Some b \<longrightarrow> 0 \<le> b"
    by (simp add: example_profile_def bonded_profile_def)
  have b1: "bond_amount example_profile = Some 2500000"
    and b2: "bond_amount bonded_profile = Some 7500000"
    by (simp_all add: example_profile_def bonded_profile_def)
  note t = score_and_rank_no_zero_division [OF m h, of "''Austin''" "''TX''"]
  from t have "score_and_rank [example_profile, bonded_profile] ''Austin'' ''TX'' 5000000
     \<noteq> Inl (ZeroDivisionError ''division by zero'')" by blast
  moreover from t b2 have "bond_points bonded_profile 5000000 = Inr 25" by fastforce
  moreover from t b1 have "\<exists>ratio. py_truediv 2500000 5000000 = Inr ratio
         \<and> bond_points example_profile 5000000 = py_int (py_float_mul 25 (Some ratio))"
    by fastforce
  ultimately show ?thesis by blast
qed

text \<open>
  What \<^verbatim>\<open>score_and_rank\<close> returns, for every minimum: the scored profiles (those with a name
  and a website, each with its score) whose score is at least 40, in descending order of
  score. No score exceeds 100 when the minimum is not negative, or when no bond amount is
  below it.
\<close>

lemma score_and_rank_contents:
  assumes "score_and_rank profiles tc ts min_bond = Inr ranked"
  shows "mset ranked =
           mset (filter (\<lambda>q. 40 \<le> score_key q)
                  (map (with_score tc ts min_bond) (filter eligible profiles)))
         \<and> (\<forall>q \<in> set ranked. 40 \<le> score_key q)
         \<and> ((0 \<le> min_bond \<or> (\<forall>p \<in> set profiles. \<forall>b. bond_amount p = Some b \<longrightarrow> min_bond \<le> b))
              \<longrightarrow> (\<forall>q \<in> set ranked. score_key q \<le> 100))
         \<and> sorted_wrt (\<lambda>a b. score_key b \<le> score_key a) ranked"
proof -
  from assms obtain unsorted where loop: "score_loop profiles tc ts min_bond = Inr unsorted"
    and ranked: "ranked = sort_key (\<lambda>p. - score_key p) unsorted"
    by (auto simp: score_and_rank_def split: sum.splits)
  from score_loop_Inr [OF loop]
  have u: "unsorted = filter (\<lambda>q. 40 \<le> score_key q)
                        (map (with_score tc ts min_bond) (filter eligible profiles))"
    and ok: "\<forall>p \<in> set profiles. eligible p \<longrightarrow> (\<exists>s. score_of p tc ts min_bond = Inr s)"
    by blast+
  have m: "mset ranked = mset unsorted" unfolding ranked by simp
  have src: "\<exists>p \<in> set profiles. \<exists>s. score_of p tc ts min_bond = Inr s \<and> score_key q = s
               \<and> 40 \<le> score_key q"
    if "q \<in> set ranked" for q
  proof -
    from that have "q \<in> set unsorted" unfolding ranked by simp
    then have q40: "40 \<le> score_key q"
      and "q \<in> with_score tc ts min_bond ` set (filter eligible profiles)"
      unfolding u by simp_all
    then obtain p where p: "p \<in> set profiles" "eligible p"
      and q: "q = with_score tc ts min_bond p" by auto
    from ok p obtain s where s: "score_of p tc ts min_bond = Inr s" by blast
    then have "score_key q = s" by (simp add: q with_score_def score_key_def)
    with p s q40 show ?thesis by blast
  qed
  have lo: "\<forall>q \<in> set ranked. 40 \<le> score_key q" using src by blast
  have hi: "\<forall>q \<in> set ranked. score_key q \<le> 100"
    if h: "0 \<le> min_bond \<or> (\<forall>p \<in> set profiles. \<forall>b. bond_amount p = Some b \<longrightarrow> min_bond \<le> b)"
  proof
    fix q
    assume "q \<in> set ranked"
    from src [OF this] obtain p s where p: "p \<in> set profiles"
      and s: "score_of p tc ts min_bond = Inr s" and k: "score_key q = s" by blast
    from h p have "0 \<le> min_bond \<or> (\<forall>b. bond_amount p = Some b \<longrightarrow> min_bond \<le> b)" by blast
    from score_of_le [OF this s] k show "score_key q \<le> 100" by simp
  qed
  have srt: "sorted_wrt (\<lambda>a b. score_key b \<le> score_key a) ranked"
    unfolding ranked by (rule sorted_desc_sort_key)
  from m u have "mset ranked =
           mset (filter (\<lambda>q. 40 \<le> score_key q)
                  (map (with_score tc ts min_bond) (filter eligible profiles)))" by simp
  with lo hi srt show ?thesis by blast
qed

text \<open>
  Claim C1: the returned list holds exactly the scored profiles with score at least 40,
  every score lies in \<open>[0, 100]\<close>, and the list is sorted by score in descending order. The
  code breaks the range: \<^verbatim>\<open>min_bond\<close> is not validated, and with \<open>min_bond = -1\<close> and a
  bond amount of \<open>-100\<close> the ratio is 100, the bonding factor 2500, more than the 25 points
  its comment gives it, and the profile is returned with score 2510.
\<close>

theorem score_and_rank_negative_min_bond:
  "score_and_rank [negative_bond_profile] ''Austin'' ''TX'' (- 1) =
     Inr [negative_bond_profile\<lparr>score := Some 2510\<rparr>]
   \<and> bond_points negative_bond_profile (- 1) = Inr 2500
   \<and> \<not> (2500 \<le> (25::int)) \<and> \<not> (2510 \<le> (100::int))"
  by (simp add: score_and_rank_def eligible_def truthy_str_def score_of_def bond_points_def
      bonding_factor_negative geo_factor_def lic_factor_def project_factor_def
      get_tx_projects_def negative_bond_profile_def)

section \<open>Properties of license verification\<close>

lemma upper_tx: "upper ''tx'' = ''TX''"
  by code_simp

lemma verify_one_fields:
  "truthy_str (lic_number (verify_one r a p)) \<and> lic_active (verify_one r a p) = Some a"
  by (simp add: verify_one_def Let_def truthy_str_def)

lemma verify_loop_fields:
  "q \<in> set (verify_loop ri ra i ps) \<Longrightarrow> truthy_str (lic_number q) \<and> lic_active q \<noteq> None"
proof (induction ps arbitrary: i)
  case Nil
  then show ?case by simp
next
  case (Cons p ps)
  then show ?case using verify_one_fields [of "ri i" "ra i" p] by auto
qed

lemma parse_project_history_lic:
  "parse_project_history fetch gt kf cy ps st kws = Inr qs \<Longrightarrow>
   map lic_active qs = map lic_active ps \<and> map lic_number qs = map lic_number ps"
proof (induction ps arbitrary: qs)
  case Nil
  then show ?case by simp
next
  case (Cons p ps)
  then show ?case by (auto split: sum.splits if_splits)
qed

lemma lic_factor_known: "lic_active p \<noteq> None \<Longrightarrow> lic_factor p \<noteq> 10"
  by (auto simp: lic_factor_def)

text \<open>
  Claim C9. For every profile list verified under a state that is \<^verbatim>\<open>TX\<close> after
  \<^verbatim>\<open>upper()\<close>, every profile in the output of \<^verbatim>\<open>verify_licenses\<close> has a license number and
  a license status that are not \<^verbatim>\<open>None\<close>, so its license factor is 25 or 0, never the 10 of
  the unknown status; the project-history stage that follows leaves the status as it is, so
  the same holds for the profiles that reach \<^verbatim>\<open>score_and_rank\<close>.
\<close>

theorem verify_licenses_tx:
  assumes "upper st = ''TX''"
  shows "(\<forall>p \<in> set (verify_licenses rand_int rand_active profiles st).
            lic_number p \<noteq> None \<and> lic_active p \<noteq> None \<and> lic_factor p \<noteq> 10)
       \<and> (\<forall>qs. parse_project_history fetch get_text kw_findall cy
                  (verify_licenses rand_int rand_active profiles st) st keywords = Inr qs
               \<longrightarrow> (\<forall>q \<in> set qs. lic_active q \<noteq> None \<and> lic_factor q \<noteq> 10))"
proof (intro conjI ballI allI impI)
  fix p
  assume "p \<in> set (verify_licenses rand_int rand_active profiles st)"
  then have p: "p \<in> set (verify_loop rand_int rand_active 0 profiles)"
    using assms by (simp add: verify_licenses_def)
  from verify_loop_fields [OF p] show "lic_number p \<noteq> None"
    by (auto simp: truthy_str_def split: option.splits)
  from verify_loop_fields [OF p] show a: "lic_active p \<noteq> None" by simp
  from a show "lic_factor p \<noteq> 10" by (rule lic_factor_known)
next
  fix qs q
  assume h: "parse_project_history fetch get_text kw_findall cy
               (verify_licenses rand_int rand_active profiles st) st keywords = Inr qs"
    and q: "q \<in> set qs"
  from parse_project_history_lic [OF h]
  have m: "map lic_active qs = map lic_active (verify_licenses rand_int rand_active profiles st)"
    by simp
  from q have "lic_active q \<in> set (map lic_active qs)" by simp
  then have "lic_active q \<in> set (map lic_active (verify_licenses rand_int rand_active profiles st))"
    unfolding m .
  then obtain p where p: "p \<in> set (verify_licenses rand_int rand_active profiles st)"
    and e: "lic_active q = lic_active p" by auto
  from p have "p \<in> set (verify_loop rand_int rand_active 0 profiles)"
    using assms by (simp add: verify_licenses_def)
  from verify_loop_fields [OF this] e show a: "lic_active q \<noteq> None" by simp
  from a show "lic_factor q \<noteq> 10" by (rule lic_factor_known)
qed

theorem verify_licenses_tx_witness:
  "lic_number (verify_one 12345678 False negative_bond_profile) \<noteq> None
   \<and> lic_factor (verify_one 12345678 False negative_bond_profile) \<noteq> 10"
proof -
  have m: "verify_one 12345678 False negative_bond_profile
             \<in> set (verify_licenses (\<lambda>i. 12345678) (\<lambda>i. False) [negative_bond_profile] ''tx'')"
    by (simp add: verify_licenses_def upper_tx)
  from verify_licenses_tx [OF upper_tx, of "\<lambda>i. 12345678" "\<lambda>i. False" "[negative_bond_profile]"] m
  show ?thesis by blast
qed




section \<open>Properties of the project history\<close>

lemma years_2026: "years 2026 = [''2021'', ''2022'', ''2023'', ''2024'', ''2025'', ''2026'']"
  by code_simp

lemma tx_mentions_eleven: "tx_mentions eleven_projects = 11"
  by code_simp

lemma year_mentions_eleven: "year_mentions 2026 eleven_projects = 11"
  by code_simp

lemma fetch_first_history:
  "fetch_first history_site (rstrip_slash ''https://acme.example'') project_paths = eleven_projects"
  by code_simp

lemma keyword_mentions_2024:
  "keyword_mentions literal_findall [''2024''] eleven_projects = Inr 11"
  by code_simp


lemma estimate_count_boost:
  "0 < kw \<Longrightarrow> 0 < tx \<Longrightarrow> 0 < yr \<Longrightarrow>
     estimate_count tx yr kw = min (min tx yr + kw div 2) 10 \<and> estimate_count tx yr kw \<le> 10"
  by (simp add: estimate_count_def Let_def)

lemma estimate_count_plain:
  "\<not> (0 < kw \<and> 0 < tx \<and> 0 < yr) \<Longrightarrow> estimate_count tx yr kw = min tx yr"
  by (auto simp: estimate_count_def Let_def)

lemma parse_project_history_nth:
  assumes "parse_project_history fetch get_text kw_findall cy ps st kws = Inr qs"
    and "i < length ps"
  shows "length qs = length ps
       \<and> (if \<not> truthy_str (website (ps ! i)) then qs ! i = ps ! i
          else \<exists>n. count_projects get_text kw_findall cy kws
                       (fetch_first fetch (rstrip_slash (the (website (ps ! i)))) project_paths)
                     = Inr n
                   \<and> qs ! i = (ps ! i)\<lparr>tx_projects_past_5yrs := Some (Some (int n))\<rparr>)"
  using assms
proof (induction ps arbitrary: qs i)
  case Nil
  then show ?case by simp
next
  case (Cons p ps)
  from Cons.prems(1) obtain p1 ps1 where qs: "qs = p1 # ps1"
    and rest: "parse_project_history fetch get_text kw_findall cy ps st kws = Inr ps1"
    and p1: "(if \<not> truthy_str (website p) then Inr p
            else case count_projects get_text kw_findall cy kws
                        (fetch_first fetch (rstrip_slash (the (website p))) project_paths) of
                   Inl e \<Rightarrow> Inl e
                 | Inr n \<Rightarrow> Inr (p\<lparr>tx_projects_past_5yrs := Some (Some (int n))\<rparr>)) = Inr p1"
    by (auto split: sum.splits)
  show ?case
  proof (cases i)
    case 0
    have len: "length ps1 = length ps"
    proof (cases ps)
      case Nil
      with rest show ?thesis by simp
    next
      case (Cons a list)
      then have "0 < length ps" by simp
      from Cons.IH [OF rest this] show ?thesis by simp
    qed
    from p1 len show ?thesis unfolding 0 qs
      by (auto split: if_splits sum.splits)
  next
    case (Suc j)
    with Cons.prems(2) have j: "j < length ps" by simp
    from Cons.IH [OF rest j] show ?thesis unfolding Suc qs by simp
  qed
qed

lemma eleven_projects_nonempty: "eleven_projects \<noteq> []"
  by (simp add: eleven_projects_def)

lemma example_website: "website example_profile = Some ''https://acme.example''"
  by (simp add: example_profile_def)

lemma count_projects_eleven:
  "count_projects plain_text literal_findall 2026 [] eleven_projects = Inr 11"
  by (simp add: count_projects_def eleven_projects_nonempty plain_text_def tx_mentions_eleven
      year_mentions_eleven estimate_count_def)

text \<open>
  Claim C3, as stated, fails: the ceiling of 10 is applied only inside the keyword boost.
  A project page with eleven location tokens and eleven mentions of a recent year, and no
  keywords, gives a count of 11.
\<close>

theorem parse_project_history_uncapped:
  "parse_project_history history_site plain_text literal_findall 2026 [example_profile] ''TX'' [] =
     Inr [example_profile\<lparr>tx_projects_past_5yrs := Some (Some 11)\<rparr>]
   \<and> \<not> (11 \<le> (10::int))"
  by (simp add: truthy_str_def example_website fetch_first_history count_projects_eleven)

text \<open>
  Claim C3, amended. For every profile with a website that \<^verbatim>\<open>parse_project_history\<close> returns,
  the count assigned is a non-negative integer: 0 when no project page was fetched; the
  minimum of the location-token tally and the recent-year tally, boosted by half the
  keyword-mention count and capped at 10, when both tallies are positive and keyword mentions
  are present; and otherwise the minimum of the two tallies, without a ceiling.
\<close>

theorem parse_project_history_count:
  assumes "parse_project_history fetch get_text kw_findall cy profiles st keywords = Inr qs"
    and "i < length profiles"
    and "truthy_str (website (profiles ! i))"
    and "html = fetch_first fetch (rstrip_slash (the (website (profiles ! i)))) project_paths"
    and "text = get_text html"
  shows "\<exists>c. tx_projects_past_5yrs (qs ! i) = Some (Some c) \<and> 0 \<le> c
           \<and> (html = [] \<longrightarrow> c = 0)
           \<and> (html \<noteq> [] \<longrightarrow>
                (\<exists>kw. keyword_mentions kw_findall keywords text = Inr kw
                   \<and> (0 < kw \<and> 0 < tx_mentions text \<and> 0 < year_mentions cy text \<longrightarrow>
                        c = min (int (min (tx_mentions text) (year_mentions cy text)) + int kw div 2) 10
                        \<and> c \<le> 10)
                   \<and> (\<not> (0 < kw \<and> 0 < tx_mentions text \<and> 0 < year_mentions cy text) \<longrightarrow>
                        c = int (min (tx_mentions text) (year_mentions cy text)))))"
proof -
  from parse_project_history_nth [OF assms(1,2)] assms(3,4)
  obtain n where n: "count_projects get_text kw_findall cy keywords html = Inr n"
    and q: "qs ! i = (profiles ! i)\<lparr>tx_projects_past_5yrs := Some (Some (int n))\<rparr>"
    by auto
  show ?thesis
  proof (cases "html = []")
    case True
    with n have "n = 0" by (simp add: count_projects_def)
    with q True show ?thesis by simp
  next
    case False
    with n assms(5) obtain kw where kw: "keyword_mentions kw_findall keywords text = Inr kw"
      and e: "n = estimate_count (tx_mentions text) (year_mentions cy text) kw"
      by (auto simp: count_projects_def Let_def split: sum.splits)
    have b: "0 < kw \<and> 0 < tx_mentions text \<and> 0 < year_mentions cy text \<longrightarrow>
               int n = min (int (min (tx_mentions text) (year_mentions cy text)) + int kw div 2) 10
               \<and> int n \<le> 10"
    proof
      assume h: "0 < kw \<and> 0 < tx_mentions text \<and> 0 < year_mentions cy text"
      then have "n = min (min (tx_mentions text) (year_mentions cy text) + kw div 2) 10 \<and> n \<le> 10"
        unfolding e using estimate_count_boost by blast
      then show "int n = min (int (min (tx_mentions text) (year_mentions cy text)) + int kw div 2) 10
               \<and> int n \<le> 10"
        by (simp add: zdiv_int)
    qed
    have p: "\<not> (0 < kw \<and> 0 < tx_mentions text \<and> 0 < year_mentions cy text) \<longrightarrow>
               int n = int (min (tx_mentions text) (year_mentions cy text))"
      unfolding e using estimate_count_plain by simp
    from q False kw b p show ?thesis by simp
  qed
qed

theorem parse_project_history_count_witness:
  "\<exists>c. tx_projects_past_5yrs (example_profile\<lparr>tx_projects_past_5yrs := Some (Some 10)\<rparr>)
          = Some (Some c)
        \<and> c = min (int (min (tx_mentions eleven_projects) (year_mentions 2026 eleven_projects))
                    + int 11 div 2) 10
        \<and> c \<le> 10"
proof -
  have cp: "count_projects plain_text literal_findall 2026 [''2024''] eleven_projects = Inr 10"
    by (simp add: count_projects_def eleven_projects_nonempty plain_text_def tx_mentions_eleven
        year_mentions_eleven estimate_count_def keyword_mentions_2024
        del: keyword_mentions.simps)
  have run: "parse_project_history history_site plain_text literal_findall 2026 [example_profile]
               ''TX'' [''2024''] = Inr [example_profile\<lparr>tx_projects_past_5yrs := Some (Some 10)\<rparr>]"
    by (simp add: truthy_str_def example_website fetch_first_history cp)
  have i: "0 < length [example_profile]" by simp
  have w: "truthy_str (website ([example_profile] ! 0))"
    by (simp add: truthy_str_def example_website)
  have h: "eleven_projects = fetch_first history_site
             (rstrip_slash (the (website ([example_profile] ! 0)))) project_paths"
    by (simp add: example_website fetch_first_history)
  have t: "eleven_projects = plain_text eleven_projects" by (simp add: plain_text_def)
  from parse_project_history_count [OF run i w h t] eleven_projects_nonempty
    keyword_mentions_2024 tx_mentions_eleven year_mentions_eleven
  show ?thesis by auto
qed

section \<open>Properties of the job store\<close>

lemma queued_job:
  "queued_store ''job-1'' =
     Some \<lparr>status = QUEUED, request = (''mechanical'', ''Austin'', ''TX'', 5000000, []),
           created_at = ''2026-01-01T00:00:00'', results = None, completed_at = None,
           error = None\<rparr>"
  by (simp add: queued_store_def create_research_job_def)

text \<open>
  Claim C7, as stated, fails: the message stored is \<^verbatim>\<open>str(e)\<close>, and that is the empty string
  for an exception raised without arguments. The job ends in status \<^verbatim>\<open>FAILED\<close> with an
  empty error message.
\<close>

theorem process_research_job_empty_error:
  "process_research_job empty_error_pipeline ''2026-01-01T00:01:00'' queued_store ''job-1''
     ''mechanical'' ''Austin'' ''TX'' 5000000 [] =
   Inr (queued_store(''job-1'' \<mapsto>
     \<lparr>status = FAILED, request = (''mechanical'', ''Austin'', ''TX'', 5000000, []),
      created_at = ''2026-01-01T00:00:00'', results = None, completed_at = None,
      error = Some []\<rparr>))"
  by (simp add: process_research_job_def queued_job empty_error_pipeline_def)

text \<open>
  Claim C7, amended. For every job in the store whose pipeline raises an exception \<open>e\<close>, the
  job record ends in status \<^verbatim>\<open>FAILED\<close>, its error message is \<^verbatim>\<open>str(e)\<close>, non-empty whenever
  that text is non-empty, and its results and completion time are what they were before; a
  job made by \<^verbatim>\<open>create_research_job\<close> has no results.
\<close>

theorem process_research_job_failed:
  assumes "jobs_store job_id = Some j"
    and "run_research trade cty st min_bond keywords = Inl e"
  shows "(\<exists>j'. process_research_job run_research now jobs_store job_id trade cty st min_bond
                  keywords = Inr (jobs_store(job_id \<mapsto> j'))
             \<and> status j' = FAILED
             \<and> error j' = Some (str_of_error e)
             \<and> (str_of_error e \<noteq> [] \<longrightarrow> error j' \<noteq> Some [])
             \<and> results j' = results j
             \<and> completed_at j' = completed_at j)
       \<and> (\<forall>store req t0.
             results (the (fst (create_research_job store job_id req t0) job_id)) = None)"
proof (rule conjI)
  show "\<exists>j'. process_research_job run_research now jobs_store job_id trade cty st min_bond
                  keywords = Inr (jobs_store(job_id \<mapsto> j'))
             \<and> status j' = FAILED
             \<and> error j' = Some (str_of_error e)
             \<and> (str_of_error e \<noteq> [] \<longrightarrow> error j' \<noteq> Some [])
             \<and> results j' = results j
             \<and> completed_at j' = completed_at j"
    by (rule exI [of _ "j\<lparr>status := FAILED, error := Some (str_of_error e)\<rparr>"])
       (simp add: process_research_job_def assms)
  show "\<forall>store req t0.
          results (the (fst (create_research_job store job_id req t0) job_id)) = None"
    by (simp add: create_research_job_def)
qed

lemma division_error:
  "division_error_pipeline ''mechanical'' ''Austin'' ''TX'' 0 [] =
     Inl (ZeroDivisionError ''division by zero'')"
  by (simp add: division_error_pipeline_def score_and_rank_def eligible_def truthy_str_def
      score_of_def bond_points_def bonding_factor_def py_truediv_def negative_bond_profile_def)

theorem process_research_job_failed_witness:
  "\<exists>j'. process_research_job division_error_pipeline ''2026-01-01T00:01:00'' queued_store
           ''job-1'' ''mechanical'' ''Austin'' ''TX'' 0 [] = Inr (queued_store(''job-1'' \<mapsto> j'))
        \<and> status j' = FAILED
        \<and> error j' = Some ''division by zero''
        \<and> error j' \<noteq> Some []
        \<and> results j' = None"
proof -
  from process_research_job_failed [where run_research = division_error_pipeline
      and jobs_store = queued_store and now = "''2026-01-01T00:01:00''",
      OF queued_job division_error]
  obtain j' where r: "process_research_job division_error_pipeline ''2026-01-01T00:01:00''
        queued_store ''job-1'' ''mechanical'' ''Austin'' ''TX'' 0 [] =
        Inr (queued_store(''job-1'' \<mapsto> j'))"
    and s: "status j' = FAILED"
    and e: "error j' = Some (str_of_error (ZeroDivisionError ''division by zero''))"
    and n: "results j' = results \<lparr>status = QUEUED,
           request = (''mechanical'', ''Austin'', ''TX'', 5000000, []),
           created_at = ''2026-01-01T00:00:00'', results = None, completed_at = None,
           error = None\<rparr>"
    by blast
  from e have e1: "error j' = Some ''division by zero''" by simp
  from n have n1: "results j' = None" by simp
  from e1 have e2: "error j' \<noteq> Some []" by simp
  from r s e1 e2 n1 show ?thesis by blast
qed

section \<open>Properties of discovery\<close>

lemma extract_domain_empty [simp]: "extract_domain netloc [] = []"
  by (simp add: extract_domain_def)

lemma dedupe_domains:
  "\<forall>(d, c) \<in> set acc. d \<noteq> [] \<and> d = extract_domain netloc (website_or_empty c) \<Longrightarrow>
   \<forall>(d, c) \<in> set (dedupe netloc cs acc). d \<noteq> [] \<and> d = extract_domain netloc (website_or_empty c)"
proof (induction cs arbitrary: acc)
  case Nil
  then show ?case by simp
next
  case (Cons c cs)
  show ?case
    unfolding dedupe.simps Let_def
    by (rule Cons.IH) (use Cons.prems in auto)
qed

lemma unique_values_domain:
  assumes "c \<in> set (unique_values netloc all_results)"
  shows "extract_domain netloc (website_or_empty c) \<noteq> []"
proof -
  from assms obtain d where "(d, c) \<in> set (dedupe netloc (collect all_results) [])"
    by (auto simp: unique_values_def)
  moreover have "\<forall>(d, c) \<in> set (dedupe netloc (collect all_results) []).
                   d \<noteq> [] \<and> d = extract_domain netloc (website_or_empty c)"
    by (rule dedupe_domains) simp
  ultimately show ?thesis by auto
qed

lemma license_board_no_website:
  "c \<in> set (search_state_license_board rand_int trade st) \<Longrightarrow>
     c_website c = None \<and> c_source c = Some ''license_board''"
  by (auto simp: search_state_license_board_def)

lemma no_website_no_domain:
  "extract_domain netloc (website_or_empty c) \<noteq> [] \<Longrightarrow>
     c_website c \<noteq> None \<and> c_website c \<noteq> Some []"
  by (cases "c_website c") (auto simp: website_or_empty_def)

lemma named_candidates_source:
  "c \<in> set (named_candidates label source ds) \<Longrightarrow> c_source c = Some source"
  by (auto simp: named_candidates_def)

lemma collect_append: "collect (xs @ ys) = collect xs @ collect ys"
proof (induction xs)
  case Nil
  then show ?case by simp
next
  case (Cons x xs)
  then show ?case by (cases x) simp_all
qed

lemma collect_map_Inr: "set (collect (map (\<lambda>q. Inr (f q)) qs)) = (\<Union>q \<in> set qs. set (f q))"
  by (induction qs) auto

lemma search_results_sources:
  assumes "c \<in> set (collect (search_results rand_int trade cty st keywords))"
  shows "c \<in> set (search_state_license_board rand_int trade st)
         \<or> c_source c \<in> {Some ''google_search'', Some ''yelp'', Some ''bbb''}"
proof -
  from assms consider
      (g) q where "c \<in> set (search_google_custom q)"
    | (y) "c \<in> set (search_yelp trade cty st)"
    | (b) "c \<in> set (search_bbb trade cty st)"
    | (l) "c \<in> set (search_state_license_board rand_int trade st)"
    by (auto simp: search_results_def collect_append collect_map_Inr)
  then show ?thesis
  proof cases
    case g
    then show ?thesis unfolding search_google_custom_def
      by (simp add: named_candidates_source)
  next
    case y
    then show ?thesis unfolding search_yelp_def by (simp add: named_candidates_source)
  next
    case b
    then show ?thesis unfolding search_bbb_def by (simp add: named_candidates_source)
  next
    case l
    then show ?thesis by simp
  qed
qed

lemma acme_domain:
  "extract_domain simple_netloc (website_or_empty acme_candidate) = ''acme.example''"
  by (simp add: extract_domain_def website_or_empty_def acme_candidate_def simple_netloc_def)

lemma acme_unique:
  "unique_values simple_netloc [Inl (Exception ''timeout''), Inr [acme_candidate, acme_candidate]]
     = [acme_candidate]"
  by (simp add: unique_values_def acme_domain)

lemma license_board_nonempty: "search_state_license_board rand_int trade st \<noteq> []"
  by (simp add: search_state_license_board_def)


text \<open>
  Claim C8. For every list of adapter results, every candidate in the discovery output has
  a website that is present, not empty, and of a normalized domain that is not empty: a
  candidate without these is excluded. No record of the license-board adapter, which has
  no website, is in the output of the deduplication, whatever the other results are, and
  the candidates that \<^verbatim>\<open>discover_candidates\<close> returns have a website and another source.
\<close>

theorem discovery_drops_empty_domain:
  "(\<forall>c \<in> set (unique_values netloc all_results).
      extract_domain netloc (website_or_empty c) \<noteq> []
      \<and> c_website c \<noteq> None \<and> c_website c \<noteq> Some [])
   \<and> (\<forall>c \<in> set (search_state_license_board rand_int trade st).
        c \<notin> set (unique_values netloc all_results))
   \<and> (\<forall>c \<in> set (discover_candidates netloc rand_int trade cty st keywords).
        c_website c \<noteq> None \<and> c_source c \<noteq> Some ''license_board'')"
proof (intro conjI ballI)
  fix c
  assume c: "c \<in> set (unique_values netloc all_results)"
  from unique_values_domain [OF c]
  show d: "extract_domain netloc (website_or_empty c) \<noteq> []" .
  from no_website_no_domain [OF d] show "c_website c \<noteq> None" by simp
  from no_website_no_domain [OF d] show "c_website c \<noteq> Some []" by simp
next
  fix c
  assume c: "c \<in> set (search_state_license_board rand_int trade st)"
  show "c \<notin> set (unique_values netloc all_results)"
  proof
    assume "c \<in> set (unique_values netloc all_results)"
    from no_website_no_domain [OF unique_values_domain [OF this]]
      license_board_no_website [OF c]
    show False by simp
  qed
next
  fix c
  assume c: "c \<in> set (discover_candidates netloc rand_int trade cty st keywords)"
  then have u: "c \<in> set (unique_values netloc (search_results rand_int trade cty st keywords))"
    by (simp add: discover_candidates_def)
  from no_website_no_domain [OF unique_values_domain [OF u]]
  show w: "c_website c \<noteq> None" by simp
  show "c_source c \<noteq> Some ''license_board''"
  proof
    assume s: "c_source c = Some ''license_board''"
    have "set (unique_values netloc rs) \<subseteq> set (collect rs)" for rs
    proof -
      have "set (map snd (dedupe netloc cs acc)) \<subseteq> set cs \<union> set (map snd acc)" for cs acc
      proof (induction cs arbitrary: acc)
        case Nil
        then show ?case by simp
      next
        case (Cons a cs)
        show ?case using Cons.IH [of "if extract_domain netloc (website_or_empty a) \<noteq> []
               \<and> map_of acc (extract_domain netloc (website_or_empty a)) = None
             then acc @ [(extract_domain netloc (website_or_empty a), a)] else acc"]
          by (auto simp: Let_def split: if_splits)
      qed
      from this [of "collect rs" "[]"] show ?thesis by (simp add: unique_values_def)
    qed
    with u have "c \<in> set (collect (search_results rand_int trade cty st keywords))" by blast
    from search_results_sources [OF this] s have "c \<in> set (search_state_license_board rand_int trade st)" by simp
    from license_board_no_website [OF this] w show False by simp
  qed
qed

theorem discovery_drops_empty_domain_witness:
  "extract_domain simple_netloc (website_or_empty acme_candidate) \<noteq> []
   \<and> c_website acme_candidate \<noteq> None
   \<and> hd (search_state_license_board (\<lambda>i. 12345678) ''mechanical'' ''TX'') \<notin> set [acme_candidate]"
proof -
  have a: "acme_candidate \<in> set [acme_candidate]" by simp
  have l: "hd (search_state_license_board (\<lambda>i. 12345678) ''mechanical'' ''TX'')
             \<in> set (search_state_license_board (\<lambda>i. 12345678) ''mechanical'' ''TX'')"
    by (rule hd_in_set) (rule license_board_nonempty)
  note t = discovery_drops_empty_domain [of simple_netloc
      "[Inl (Exception ''timeout''), Inr [acme_candidate, acme_candidate]]"
      "\<lambda>i. 12345678" "''mechanical''" "''TX''", unfolded acme_unique]
  from t a have "extract_domain simple_netloc (website_or_empty acme_candidate) \<noteq> []
    \<and> c_website acme_candidate \<noteq> None" by blast
  moreover from t l
  have "hd (search_state_license_board (\<lambda>i. 12345678) ''mechanical'' ''TX'') \<notin> set [acme_candidate]"
    by blast
  ultimately show ?thesis by blast
qed

section \<open>Properties of the bonding factor\<close>

lemma ulp_exp_unit:
  assumes "0 < x" and "x < 1"
  shows "ulp_exp x \<le> - 53"
proof -
  have ok: "ulp_ok x (ulp_exp x)" by (rule ulp_exp_ok)
  have le: "ulp_exp x \<le> - 52" using ulp_ok_le [OF ok ulp_ok_1] assms(2) by simp
  have "ulp_exp x \<noteq> - 52"
  proof
    assume e: "ulp_exp x = - 52"
    from ok have "2 ^ 52 * 2 powi (- 52) \<le> x" unfolding e by (simp add: ulp_ok_def)
    then show False using assms(2) by (simp add: power_int_minus)
  qed
  with le show ?thesis by simp
qed

lemma round_double_unit_err:
  assumes "0 \<le> x" and "x < 1"
  shows "round_double x \<le> x + 1 / 2 ^ 54"
proof (cases "x = 0")
  case True
  then show ?thesis by simp
next
  case False
  with assms(1) have pos: "0 < x" by simp
  define e where "e = ulp_exp x"
  have ok: "ulp_ok x e" by (simp add: e_def ulp_exp_ok)
  have e53: "e \<le> - 53" unfolding e_def using pos assms(2) by (rule ulp_exp_unit)
  have p: "(2::rat) powi e \<le> 2 powi (- 53)" using e53 by (rule pow2_mono)
  have r: "round_double x = of_int (rne (x / 2 powi e)) * 2 powi e"
    by (rule round_double_pos_eq [OF pos ok])
  have "of_int (rne (x / 2 powi e)) \<le> x / 2 powi e + 1 / 2"
    using rne_err [of "x / 2 powi e"] by linarith
  then have "of_int (rne (x / 2 powi e)) * 2 powi e \<le> (x / 2 powi e + 1 / 2) * 2 powi e"
    by (simp add: mult_right_mono)
  also have "\<dots> = x + 2 powi e / 2" by (simp add: field_simps)
  also have "\<dots> \<le> x + 2 powi (- 53) / 2" using p by simp
  also have "\<dots> = x + 1 / 2 ^ 54" by (simp add: power_int_minus)
  finally show ?thesis unfolding r .
qed

lemma round_double_grid:
  assumes "0 < x" and "- 1074 \<le> e" and "x < 2 ^ 53 * 2 powi e" and "x = of_int k * 2 powi e"
  shows "round_double x = x"
proof -
  define e' where "e' = ulp_exp x"
  have ok: "ulp_ok x e'" by (simp add: e'_def ulp_exp_ok)
  have le: "e' \<le> e"
  proof (rule ccontr)
    assume "\<not> e' \<le> e"
    then have gt: "e + 1 \<le> e'" by simp
    then have "- 1074 < e'" using assms(2) by simp
    with ok have "2 ^ 52 * 2 powi e' \<le> x" by (simp add: ulp_ok_def)
    moreover have "(2::rat) powi (e + 1) \<le> 2 powi e'" using gt by (rule pow2_mono)
    ultimately show False using assms(3) by (simp add: pow2_Suc)
  qed
  define d where "d = nat (e - e')"
  have e: "e = e' + int d" using le by (simp add: d_def)
  have "(2::rat) powi e = 2 powi e' * 2 ^ d"
    unfolding e by (simp add: power_int_add)
  then have "x = of_int (k * 2 ^ d) * 2 powi e'" using assms(4) by simp
  from round_double_exact [OF assms(1) ok this] show ?thesis .
qed

text \<open>
  The products \<open>25 * (n / 25)\<close> in double arithmetic, for \<open>n\<close> from 1 to 24: none falls
  below \<open>n\<close>. Each is computed from the exponents and significands of the two roundings.
\<close>

lemma unit_step_1: "1 \<le> round_double (25 * round_double (1 / 25))"
proof -
  have ok1: "ulp_ok (1 / 25) (- 57)" by (simp add: ulp_ok_def power_int_minus)
  have r1: "rne (1 / 25 / 2 powi (- 57)) = 5764607523034235"
    by (rule rne_eqI) (simp_all add: power_int_minus)
  have q: "round_double (1 / 25) = of_int 5764607523034235 * 2 powi (- 57)"
    by (rule round_double_eval [OF _ ok1 r1]) simp
  have ok2: "ulp_ok (25 * (of_int 5764607523034235 * 2 powi (- 57))) (- 52)"
    by (simp add: ulp_ok_def power_int_minus)
  have r2: "rne (25 * (of_int 5764607523034235 * 2 powi (- 57)) / 2 powi (- 52)) = 4503599627370496"
    by (rule rne_eqI) (simp_all add: power_int_minus)
  have "round_double (25 * (of_int 5764607523034235 * 2 powi (- 57))) = of_int 4503599627370496 * 2 powi (- 52)"
    by (rule round_double_eval [OF _ ok2 r2]) simp
  then show ?thesis unfolding q by (simp add: power_int_minus)
qed

lemma unit_step_2: "2 \<le> round_double (25 * round_double (2 / 25))"
proof -
  have ok1: "ulp_ok (2 / 25) (- 56)" by (simp add: ulp_ok_def power_int_minus)
  have r1: "rne (2 / 25 / 2 powi (- 56)) = 5764607523034235"
    by (rule rne_eqI) (simp_all add: power_int_minus)
  have q: "round_double (2 / 25) = of_int 5764607523034235 * 2 powi (- 56)"
    by (rule round_double_eval [OF _ ok1 r1]) simp
  have ok2: "ulp_ok (25 * (of_int 5764607523034235 * 2 powi (- 56))) (- 51)"
    by (simp add: ulp_ok_def power_int_minus)
  have r2: "rne (25 * (of_int 5764607523034235 * 2 powi (- 56)) / 2 powi (- 51)) = 4503599627370496"
    by (rule rne_eqI) (simp_all add: power_int_minus)
  have "round_double (25 * (of_int 5764607523034235 * 2 powi (- 56))) = of_int 4503599627370496 * 2 powi (- 51)"
    by (rule round_double_eval [OF _ ok2 r2]) simp
  then show ?thesis unfolding q by (simp add: power_int_minus)
qed

lemma unit_step_3: "3 \<le> round_double (25 * round_double (3 / 25))"
proof -
  have ok1: "ulp_ok (3 / 25) (- 56)" by (simp add: ulp_ok_def power_int_minus)
  have r1: "rne (3 / 25 / 2 powi (- 56)) = 8646911284551352"
    by (rule rne_eqI) (simp_all add: power_int_minus)
  have q: "round_double (3 / 25) = of_int 8646911284551352 * 2 powi (- 56)"
    by (rule round_double_eval [OF _ ok1 r1]) simp
  have ok2: "ulp_ok (25 * (of_int 8646911284551352 * 2 powi (- 56))) (- 51)"
    by (simp add: ulp_ok_def power_int_minus)
  have r2: "rne (25 * (of_int 8646911284551352 * 2 powi (- 56)) / 2 powi (- 51)) = 6755399441055744"
    by (rule rne_eqI) (simp_all add: power_int_minus)
  have "round_double (25 * (of_int 8646911284551352 * 2 powi (- 56))) = of_int 6755399441055744 * 2 powi (- 51)"
    by (rule round_double_eval [OF _ ok2 r2]) simp
  then show ?thesis unfolding q by (simp add: power_int_minus)
qed

lemma unit_step_4: "4 \<le> round_double (25 * round_double (4 / 25))"
proof -
  have ok1: "ulp_ok (4 / 25) (- 55)" by (simp add: ulp_ok_def power_int_minus)
  have r1: "rne (4 / 25 / 2 powi (- 55)) = 5764607523034235"
    by (rule rne_eqI) (simp_all add: power_int_minus)
  have q: "round_double (4 / 25) = of_int 5764607523034235 * 2 powi (- 55)"
    by (rule round_double_eval [OF _ ok1 r1]) simp
  have ok2: "ulp_ok (25 * (of_int 5764607523034235 * 2 powi (- 55))) (- 50)"
    by (simp add: ulp_ok_def power_int_minus)
  have r2: "rne (25 * (of_int 5764607523034235 * 2 powi (- 55)) / 2 powi (- 50)) = 4503599627370496"
    by (rule rne_eqI) (simp_all add: power_int_minus)
  have "round_double (25 * (of_int 5764607523034235 * 2 powi (- 55))) = of_int 4503599627370496 * 2 powi (- 50)"
    by (rule round_double_eval [OF _ ok2 r2]) simp
  then show ?thesis unfolding q by (simp add: power_int_minus)
qed

lemma unit_step_5: "5 \<le> round_double (25 * round_double (5 / 25))"
proof -
  have ok1: "ulp_ok (5 / 25) (- 55)" by (simp add: ulp_ok_def power_int_minus)
  have r1: "rne (5 / 25 / 2 powi (- 55)) = 7205759403792794"
    by (rule rne_eqI) (simp_all add: power_int_minus)
  have q: "round_double (5 / 25) = of_int 7205759403792794 * 2 powi (- 55)"
    by (rule round_double_eval [OF _ ok1 r1]) simp
  have ok2: "ulp_ok (25 * (of_int 7205759403792794 * 2 powi (- 55))) (- 50)"
    by (simp add: ulp_ok_def power_int_minus)
  have r2: "rne (25 * (of_int 7205759403792794 * 2 powi (- 55)) / 2 powi (- 50)) = 5629499534213120"
    by (rule rne_eqI) (simp_all add: power_int_minus)
  have "round_double (25 * (of_int 7205759403792794 * 2 powi (- 55))) = of_int 5629499534213120 * 2 powi (- 50)"
    by (rule round_double_eval [OF _ ok2 r2]) simp
  then show ?thesis unfolding q by (simp add: power_int_minus)
qed

lemma unit_step_6: "6 \<le> round_double (25 * round_double (6 / 25))"
proof -
  have ok1: "ulp_ok (6 / 25) (- 55)" by (simp add: ulp_ok_def power_int_minus)
  have r1: "rne (6 / 25 / 2 powi (- 55)) = 8646911284551352"
    by (rule rne_eqI) (simp_all add: power_int_minus)
  have q: "round_double (6 / 25) = of_int 8646911284551352 * 2 powi (- 55)"
    by (rule round_double_eval [OF _ ok1 r1]) simp
  have ok2: "ulp_ok (25 * (of_int 8646911284551352 * 2 powi (- 55))) (- 50)"
    by (simp add: ulp_ok_def power_int_minus)
  have r2: "rne (25 * (of_int 8646911284551352 * 2 powi (- 55)) / 2 powi (- 50)) = 6755399441055744"
    by (rule rne_eqI) (simp_all add: power_int_minus)
  have "round_double (25 * (of_int 8646911284551352 * 2 powi (- 55))) = of_int 6755399441055744 * 2 powi (- 50)"
    by (rule round_double_eval [OF _ ok2 r2]) simp
  then show ?thesis unfolding q by (simp add: power_int_minus)
qed

lemma unit_step_7: "7 \<le> round_double (25 * round_double (7 / 25))"
proof -
  have ok1: "ulp_ok (7 / 25) (- 54)" by (simp add: ulp_ok_def power_int_minus)
  have r1: "rne (7 / 25 / 2 powi (- 54)) = 5044031582654956"
    by (rule rne_eqI) (simp_all add: power_int_minus)
  have q: "round_double (7 / 25) = of_int 5044031582654956 * 2 powi (- 54)"
    by (rule round_double_eval [OF _ ok1 r1]) simp
  have ok2: "ulp_ok (25 * (of_int 5044031582654956 * 2 powi (- 54))) (- 50)"
    by (simp add: ulp_ok_def power_int_minus)
  have r2: "rne (25 * (of_int 5044031582654956 * 2 powi (- 54)) / 2 powi (- 50)) = 7881299347898369"
    by (rule rne_eqI) (simp_all add: power_int_minus)
  have "round_double (25 * (of_int 5044031582654956 * 2 powi (- 54))) = of_int 7881299347898369 * 2 powi (- 50)"
    by (rule round_double_eval [OF _ ok2 r2]) simp
  then show ?thesis unfolding q by (simp add: power_int_minus)
qed

lemma unit_step_8: "8 \<le> round_double (25 * round_double (8 / 25))"
proof -
  have ok1: "ulp_ok (8 / 25) (- 54)" by (simp add: ulp_ok_def power_int_minus)
  have r1: "rne (8 / 25 / 2 powi (- 54)) = 5764607523034235"
    by (rule rne_eqI) (simp_all add: power_int_minus)
  have q: "round_double (8 / 25) = of_int 5764607523034235 * 2 powi (- 54)"
    by (rule round_double_eval [OF _ ok1 r1]) simp
  have ok2: "ulp_ok (25 * (of_int 5764607523034235 * 2 powi (- 54))) (- 49)"
    by (simp add: ulp_ok_def power_int_minus)
  have r2: "rne (25 * (of_int 5764607523034235 * 2 powi (- 54)) / 2 powi (- 49)) = 4503599627370496"
    by (rule rne_eqI) (simp_all add: power_int_minus)
  have "round_double (25 * (of_int 5764607523034235 * 2 powi (- 54))) = of_int 4503599627370496 * 2 powi (- 49)"
    by (rule round_double_eval [OF _ ok2 r2]) simp
  then show ?thesis unfolding q by (simp add: power_int_minus)
qed

lemma unit_step_9: "9 \<le> round_double (25 * round_double (9 / 25))"
proof -
  have ok1: "ulp_ok (9 / 25) (- 54)" by (simp add: ulp_ok_def power_int_minus)
  have r1: "rne (9 / 25 / 2 powi (- 54)) = 6485183463413514"
    by (rule rne_eqI) (simp_all add: power_int_minus)
  have q: "round_double (9 / 25) = of_int 6485183463413514 * 2 powi (- 54)"
    by (rule round_double_eval [OF _ ok1 r1]) simp
  have ok2: "ulp_ok (25 * (of_int 6485183463413514 * 2 powi (- 54))) (- 49)"
    by (simp add: ulp_ok_def power_int_minus)
  have r2: "rne (25 * (of_int 6485183463413514 * 2 powi (- 54)) / 2 powi (- 49)) = 5066549580791808"
    by (rule rne_eqI) (simp_all add: power_int_minus)
  have "round_double (25 * (of_int 6485183463413514 * 2 powi (- 54))) = of_int 5066549580791808 * 2 powi (- 49)"
    by (rule round_double_eval [OF _ ok2 r2]) simp
  then show ?thesis unfolding q by (simp add: power_int_minus)
qed

lemma unit_step_10: "10 \<le> round_double (25 * round_double (10 / 25))"
proof -
  have ok1: "ulp_ok (10 / 25) (- 54)" by (simp add: ulp_ok_def power_int_minus)
  have r1: "rne (10 / 25 / 2 powi (- 54)) = 7205759403792794"
    by (rule rne_eqI) (simp_all add: power_int_minus)
  have q: "round_double (10 / 25) = of_int 7205759403792794 * 2 powi (- 54)"
    by (rule round_double_eval [OF _ ok1 r1]) simp
  have ok2: "ulp_ok (25 * (of_int 7205759403792794 * 2 powi (- 54))) (- 49)"
    by (simp add: ulp_ok_def power_int_minus)
  have r2: "rne (25 * (of_int 7205759403792794 * 2 powi (- 54)) / 2 powi (- 49)) = 5629499534213120"
    by (rule rne_eqI) (simp_all add: power_int_minus)
  have "round_double (25 * (of_int 7205759403792794 * 2 powi (- 54))) = of_int 5629499534213120 * 2 powi (- 49)"
    by (rule round_double_eval [OF _ ok2 r2]) simp
  then show ?thesis unfolding q by (simp add: power_int_minus)
qed

lemma unit_step_11: "11 \<le> round_double (25 * round_double (11 / 25))"
proof -
  have ok1: "ulp_ok (11 / 25) (- 54)" by (simp add: ulp_ok_def power_int_minus)
  have r1: "rne (11 / 25 / 2 powi (- 54)) = 7926335344172073"
    by (rule rne_eqI) (simp_all add: power_int_minus)
  have q: "round_double (11 / 25) = of_int 7926335344172073 * 2 powi (- 54)"
    by (rule round_double_eval [OF _ ok1 r1]) simp
  have ok2: "ulp_ok (25 * (of_int 7926335344172073 * 2 powi (- 54))) (- 49)"
    by (simp add: ulp_ok_def power_int_minus)
  have r2: "rne (25 * (of_int 7926335344172073 * 2 powi (- 54)) / 2 powi (- 49)) = 6192449487634432"
    by (rule rne_eqI) (simp_all add: power_int_minus)
  have "round_double (25 * (of_int 7926335344172073 * 2 powi (- 54))) = of_int 6192449487634432 * 2 powi (- 49)"
    by (rule round_double_eval [OF _ ok2 r2]) simp
  then show ?thesis unfolding q by (simp add: power_int_minus)
qed

lemma unit_step_12: "12 \<le> round_double (25 * round_double (12 / 25))"
proof -
  have ok1: "ulp_ok (12 / 25) (- 54)" by (simp add: ulp_ok_def power_int_minus)
  have r1: "rne (12 / 25 / 2 powi (- 54)) = 8646911284551352"
    by (rule rne_eqI) (simp_all add: power_int_minus)
  have q: "round_double (12 / 25) = of_int 8646911284551352 * 2 powi (- 54)"
    by (rule round_double_eval [OF _ ok1 r1]) simp
  have ok2: "ulp_ok (25 * (of_int 8646911284551352 * 2 powi (- 54))) (- 49)"
    by (simp add: ulp_ok_def power_int_minus)
  have r2: "rne (25 * (of_int 8646911284551352 * 2 powi (- 54)) / 2 powi (- 49)) = 6755399441055744"
    by (rule rne_eqI) (simp_all add: power_int_minus)
  have "round_double (25 * (of_int 8646911284551352 * 2 powi (- 54))) = of_int 6755399441055744 * 2 powi (- 49)"
    by (rule round_double_eval [OF _ ok2 r2]) simp
  then show ?thesis unfolding q by (simp add: power_int_minus)
qed

lemma unit_step_13: "13 \<le> round_double (25 * round_double (13 / 25))"
proof -
  have ok1: "ulp_ok (13 / 25) (- 53)" by (simp add: ulp_ok_def power_int_minus)
  have r1: "rne (13 / 25 / 2 powi (- 53)) = 4683743612465316"
    by (rule rne_eqI) (simp_all add: power_int_minus)
  have q: "round_double (13 / 25) = of_int 4683743612465316 * 2 powi (- 53)"
    by (rule round_double_eval [OF _ ok1 r1]) simp
  have ok2: "ulp_ok (25 * (of_int 4683743612465316 * 2 powi (- 53))) (- 49)"
    by (simp add: ulp_ok_def power_int_minus)
  have r2: "rne (25 * (of_int 4683743612465316 * 2 powi (- 53)) / 2 powi (- 49)) = 7318349394477056"
    by (rule rne_eqI) (simp_all add: power_int_minus)
  have "round_double (25 * (of_int 4683743612465316 * 2 powi (- 53))) = of_int 7318349394477056 * 2 powi (- 49)"
    by (rule round_double_eval [OF _ ok2 r2]) simp
  then show ?thesis unfolding q by (simp add: power_int_minus)
qed

lemma unit_step_14: "14 \<le> round_double (25 * round_double (14 / 25))"
proof -
  have ok1: "ulp_ok (14 / 25) (- 53)" by (simp add: ulp_ok_def power_int_minus)
  have r1: "rne (14 / 25 / 2 powi (- 53)) = 5044031582654956"
    by (rule rne_eqI) (simp_all add: power_int_minus)
  have q: "round_double (14 / 25) = of_int 5044031582654956 * 2 powi (- 53)"
    by (rule round_double_eval [OF _ ok1 r1]) simp
  have ok2: "ulp_ok (25 * (of_int 5044031582654956 * 2 powi (- 53))) (- 49)"
    by (simp add: ulp_ok_def power_int_minus)
  have r2: "rne (25 * (of_int 5044031582654956 * 2 powi (- 53)) / 2 powi (- 49)) = 7881299347898369"
    by (rule rne_eqI) (simp_all add: power_int_minus)
  have "round_double (25 * (of_int 5044031582654956 * 2 powi (- 53))) = of_int 7881299347898369 * 2 powi (- 49)"
    by (rule round_double_eval [OF _ ok2 r2]) simp
  then show ?thesis unfolding q by (simp add: power_int_minus)
qed

lemma unit_step_15: "15 \<le> round_double (25 * round_double (15 / 25))"
proof -
  have ok1: "ulp_ok (15 / 25) (- 53)" by (simp add: ulp_ok_def power_int_minus)
  have r1: "rne (15 / 25 / 2 powi (- 53)) = 5404319552844595"
    by (rule rne_eqI) (simp_all add: power_int_minus)
  have q: "round_double (15 / 25) = of_int 5404319552844595 * 2 powi (- 53)"
    by (rule round_double_eval [OF _ ok1 r1]) simp
  have ok2: "ulp_ok (25 * (of_int 5404319552844595 * 2 powi (- 53))) (- 49)"
    by (simp add: ulp_ok_def power_int_minus)
  have r2: "rne (25 * (of_int 5404319552844595 * 2 powi (- 53)) / 2 powi (- 49)) = 8444249301319680"
    by (rule rne_eqI) (simp_all add: power_int_minus)
  have "round_double (25 * (of_int 5404319552844595 * 2 powi (- 53))) = of_int 8444249301319680 * 2 powi (- 49)"
    by (rule round_double_eval [OF _ ok2 r2]) simp
  then show ?thesis unfolding q by (simp add: power_int_minus)
qed

lemma unit_step_16: "16 \<le> round_double (25 * round_double (16 / 25))"
proof -
  have ok1: "ulp_ok (16 / 25) (- 53)" by (simp add: ulp_ok_def power_int_minus)
  have r1: "rne (16 / 25 / 2 powi (- 53)) = 5764607523034235"
    by (rule rne_eqI) (simp_all add: power_int_minus)
  have q: "round_double (16 / 25) = of_int 5764607523034235 * 2 powi (- 53)"
    by (rule round_double_eval [OF _ ok1 r1]) simp
  have ok2: "ulp_ok (25 * (of_int 5764607523034235 * 2 powi (- 53))) (- 48)"
    by (simp add: ulp_ok_def power_int_minus)
  have r2: "rne (25 * (of_int 5764607523034235 * 2 powi (- 53)) / 2 powi (- 48)) = 4503599627370496"
    by (rule rne_eqI) (simp_all add: power_int_minus)
  have "round_double (25 * (of_int 5764607523034235 * 2 powi (- 53))) = of_int 4503599627370496 * 2 powi (- 48)"
    by (rule round_double_eval [OF _ ok2 r2]) simp
  then show ?thesis unfolding q by (simp add: power_int_minus)
qed

lemma unit_step_17: "17 \<le> round_double (25 * round_double (17 / 25))"
proof -
  have ok1: "ulp_ok (17 / 25) (- 53)" by (simp add: ulp_ok_def power_int_minus)
  have r1: "rne (17 / 25 / 2 powi (- 53)) = 6124895493223875"
    by (rule rne_eqI) (simp_all add: power_int_minus)
  have q: "round_double (17 / 25) = of_int 6124895493223875 * 2 powi (- 53)"
    by (rule round_double_eval [OF _ ok1 r1]) simp
  have ok2: "ulp_ok (25 * (of_int 6124895493223875 * 2 powi (- 53))) (- 48)"
    by (simp add: ulp_ok_def power_int_minus)
  have r2: "rne (25 * (of_int 6124895493223875 * 2 powi (- 53)) / 2 powi (- 48)) = 4785074604081152"
    by (rule rne_eqI) (simp_all add: power_int_minus)
  have "round_double (25 * (of_int 6124895493223875 * 2 powi (- 53))) = of_int 4785074604081152 * 2 powi (- 48)"
    by (rule round_double_eval [OF _ ok2 r2]) simp
  then show ?thesis unfolding q by (simp add: power_int_minus)
qed

lemma unit_step_18: "18 \<le> round_double (25 * round_double (18 / 25))"
proof -
  have ok1: "ulp_ok (18 / 25) (- 53)" by (simp add: ulp_ok_def power_int_minus)
  have r1: "rne (18 / 25 / 2 powi (- 53)) = 6485183463413514"
    by (rule rne_eqI) (simp_all add: power_int_minus)
  have q: "round_double (18 / 25) = of_int 6485183463413514 * 2 powi (- 53)"
    by (rule round_double_eval [OF _ ok1 r1]) simp
  have ok2: "ulp_ok (25 * (of_int 6485183463413514 * 2 powi (- 53))) (- 48)"
    by (simp add: ulp_ok_def power_int_minus)
  have r2: "rne (25 * (of_int 6485183463413514 * 2 powi (- 53)) / 2 powi (- 48)) = 5066549580791808"
    by (rule rne_eqI) (simp_all add: power_int_minus)
  have "round_double (25 * (of_int 6485183463413514 * 2 powi (- 53))) = of_int 5066549580791808 * 2 powi (- 48)"
    by (rule round_double_eval [OF _ ok2 r2]) simp
  then show ?thesis unfolding q by (simp add: power_int_minus)
qed

lemma unit_step_19: "19 \<le> round_double (25 * round_double (19 / 25))"
proof -
  have ok1: "ulp_ok (19 / 25) (- 53)" by (simp add: ulp_ok_def power_int_minus)
  have r1: "rne (19 / 25 / 2 powi (- 53)) = 6845471433603154"
    by (rule rne_eqI) (simp_all add: power_int_minus)
  have q: "round_double (19 / 25) = of_int 6845471433603154 * 2 powi (- 53)"
    by (rule round_double_eval [OF _ ok1 r1]) simp
  have ok2: "ulp_ok (25 * (of_int 6845471433603154 * 2 powi (- 53))) (- 48)"
    by (simp add: ulp_ok_def power_int_minus)
  have r2: "rne (25 * (of_int 6845471433603154 * 2 powi (- 53)) / 2 powi (- 48)) = 5348024557502464"
    by (rule rne_eqI) (simp_all add: power_int_minus)
  have "round_double (25 * (of_int 6845471433603154 * 2 powi (- 53))) = of_int 5348024557502464 * 2 powi (- 48)"
    by (rule round_double_eval [OF _ ok2 r2]) simp
  then show ?thesis unfolding q by (simp add: power_int_minus)
qed

lemma unit_step_20: "20 \<le> round_double (25 * round_double (20 / 25))"
proof -
  have ok1: "ulp_ok (20 / 25) (- 53)" by (simp add: ulp_ok_def power_int_minus)
  have r1: "rne (20 / 25 / 2 powi (- 53)) = 7205759403792794"
    by (rule rne_eqI) (simp_all add: power_int_minus)
  have q: "round_double (20 / 25) = of_int 7205759403792794 * 2 powi (- 53)"
    by (rule round_double_eval [OF _ ok1 r1]) simp
  have ok2: "ulp_ok (25 * (of_int 7205759403792794 * 2 powi (- 53))) (- 48)"
    by (simp add: ulp_ok_def power_int_minus)
  have r2: "rne (25 * (of_int 7205759403792794 * 2 powi (- 53)) / 2 powi (- 48)) = 5629499534213120"
    by (rule rne_eqI) (simp_all add: power_int_minus)
  have "round_double (25 * (of_int 7205759403792794 * 2 powi (- 53))) = of_int 5629499534213120 * 2 powi (- 48)"
    by (rule round_double_eval [OF _ ok2 r2]) simp
  then show ?thesis unfolding q by (simp add: power_int_minus)
qed

lemma unit_step_21: "21 \<le> round_double (25 * round_double (21 / 25))"
proof -
  have ok1: "ulp_ok (21 / 25) (- 53)" by (simp add: ulp_ok_def power_int_minus)
  have r1: "rne (21 / 25 / 2 powi (- 53)) = 7566047373982433"
    by (rule rne_eqI) (simp_all add: power_int_minus)
  have q: "round_double (21 / 25) = of_int 7566047373982433 * 2 powi (- 53)"
    by (rule round_double_eval [OF _ ok1 r1]) simp
  have ok2: "ulp_ok (25 * (of_int 7566047373982433 * 2 powi (- 53))) (- 48)"
    by (simp add: ulp_ok_def power_int_minus)
  have r2: "rne (25 * (of_int 7566047373982433 * 2 powi (- 53)) / 2 powi (- 48)) = 5910974510923776"
    by (rule rne_eqI) (simp_all add: power_int_minus)
  have "round_double (25 * (of_int 7566047373982433 * 2 powi (- 53))) = of_int 5910974510923776 * 2 powi (- 48)"
    by (rule round_double_eval [OF _ ok2 r2]) simp
  then show ?thesis unfolding q by (simp add: power_int_minus)
qed

lemma unit_step_22: "22 \<le> round_double (25 * round_double (22 / 25))"
proof -
  have ok1: "ulp_ok (22 / 25) (- 53)" by (simp add: ulp_ok_def power_int_minus)
  have r1: "rne (22 / 25 / 2 powi (- 53)) = 7926335344172073"
    by (rule rne_eqI) (simp_all add: power_int_minus)
  have q: "round_double (22 / 25) = of_int 7926335344172073 * 2 powi (- 53)"
    by (rule round_double_eval [OF _ ok1 r1]) simp
  have ok2: "ulp_ok (25 * (of_int 7926335344172073 * 2 powi (- 53))) (- 48)"
    by (simp add: ulp_ok_def power_int_minus)
  have r2: "rne (25 * (of_int 7926335344172073 * 2 powi (- 53)) / 2 powi (- 48)) = 6192449487634432"
    by (rule rne_eqI) (simp_all add: power_int_minus)
  have "round_double (25 * (of_int 7926335344172073 * 2 powi (- 53))) = of_int 6192449487634432 * 2 powi (- 48)"
    by (rule round_double_eval [OF _ ok2 r2]) simp
  then show ?thesis unfolding q by (simp add: power_int_minus)
qed

lemma unit_step_23: "23 \<le> round_double (25 * round_double (23 / 25))"
proof -
  have ok1: "ulp_ok (23 / 25) (- 53)" by (simp add: ulp_ok_def power_int_minus)
  have r1: "rne (23 / 25 / 2 powi (- 53)) = 8286623314361713"
    by (rule rne_eqI) (simp_all add: power_int_minus)
  have q: "round_double (23 / 25) = of_int 8286623314361713 * 2 powi (- 53)"
    by (rule round_double_eval [OF _ ok1 r1]) simp
  have ok2: "ulp_ok (25 * (of_int 8286623314361713 * 2 powi (- 53))) (- 48)"
    by (simp add: ulp_ok_def power_int_minus)
  have r2: "rne (25 * (of_int 8286623314361713 * 2 powi (- 53)) / 2 powi (- 48)) = 6473924464345088"
    by (rule rne_eqI) (simp_all add: power_int_minus)
  have "round_double (25 * (of_int 8286623314361713 * 2 powi (- 53))) = of_int 6473924464345088 * 2 powi (- 48)"
    by (rule round_double_eval [OF _ ok2 r2]) simp
  then show ?thesis unfolding q by (simp add: power_int_minus)
qed

lemma unit_step_24: "24 \<le> round_double (25 * round_double (24 / 25))"
proof -
  have ok1: "ulp_ok (24 / 25) (- 53)" by (simp add: ulp_ok_def power_int_minus)
  have r1: "rne (24 / 25 / 2 powi (- 53)) = 8646911284551352"
    by (rule rne_eqI) (simp_all add: power_int_minus)
  have q: "round_double (24 / 25) = of_int 8646911284551352 * 2 powi (- 53)"
    by (rule round_double_eval [OF _ ok1 r1]) simp
  have ok2: "ulp_ok (25 * (of_int 8646911284551352 * 2 powi (- 53))) (- 48)"
    by (simp add: ulp_ok_def power_int_minus)
  have r2: "rne (25 * (of_int 8646911284551352 * 2 powi (- 53)) / 2 powi (- 48)) = 6755399441055744"
    by (rule rne_eqI) (simp_all add: power_int_minus)
  have "round_double (25 * (of_int 8646911284551352 * 2 powi (- 53))) = of_int 6755399441055744 * 2 powi (- 48)"
    by (rule round_double_eval [OF _ ok2 r2]) simp
  then show ?thesis unfolding q by (simp add: power_int_minus)
qed

lemma unit_steps:
  assumes "0 \<le> k" and "k \<le> 24"
  shows "of_int k \<le> round_double (25 * round_double (of_int k / 25))"
proof -
  from assms have c: "k = 24 \<or> k = 23 \<or> k = 22 \<or> k = 21 \<or> k = 20 \<or>
      k = 19 \<or> k = 18 \<or> k = 17 \<or> k = 16 \<or> k = 15 \<or> k = 14 \<or>
      k = 13 \<or> k = 12 \<or> k = 11 \<or> k = 10 \<or> k = 9 \<or> k = 8 \<or> k = 7 \<or>
      k = 6 \<or> k = 5 \<or> k = 4 \<or> k = 3 \<or> k = 2 \<or> k = 1 \<or> k = 0" by presburger
  from c show ?thesis
    using unit_step_1 unit_step_2 unit_step_3 unit_step_4 unit_step_5 unit_step_6 unit_step_7
      unit_step_8 unit_step_9 unit_step_10 unit_step_11 unit_step_12 unit_step_13 unit_step_14
      unit_step_15 unit_step_16 unit_step_17 unit_step_18 unit_step_19 unit_step_20
      unit_step_21 unit_step_22 unit_step_23 unit_step_24
    by (elim disjE) simp_all
qed

text \<open>
  For a minimum of at most \<open>2 ^ 47\<close> the two roundings cannot carry the product over the
  next integer: the quotient is at most \<open>2 powi (- 54)\<close> above \<open>b / m\<close>, and \<open>25 * b / m\<close> is at
  least \<open>1 / m\<close> below it.
\<close>

lemma bonding_factor_floor:
  assumes "0 \<le> b" and "b < m" and "m \<le> 2 ^ 47"
  shows "bonding_factor b m = Inr ((25 * b) div m)"
proof -
  define n where "n = (25 * b) div m"
  define x :: rat where "x = of_int b / of_int m"
  define q where "q = round_double x"
  have mpos: "0 < m" using assms(1,2) by simp
  have mrat: "(0::rat) < of_int m" using mpos by simp
  have n0: "0 \<le> n" unfolding n_def using assms(1) mpos by (simp add: pos_imp_zdiv_nonneg_iff)
  have nm: "n * m \<le> 25 * b"
  proof -
    have "0 \<le> 25 * b mod m" using mpos by simp
    moreover have "25 * b = n * m + 25 * b mod m" unfolding n_def by simp
    ultimately show ?thesis by linarith
  qed
  have n24: "n \<le> 24"
  proof (rule ccontr)
    assume "\<not> n \<le> 24"
    then have "25 \<le> n" by simp
    then have "25 * m \<le> n * m" using mpos by (simp add: mult_right_mono)
    with nm assms(2) show False by simp
  qed
  have nm1: "25 * b + 1 \<le> (n + 1) * m"
  proof -
    have "25 * b mod m < m" using mpos by simp
    moreover have "25 * b = n * m + 25 * b mod m" unfolding n_def by simp
    ultimately have "25 * b < n * m + m" by linarith
    then show ?thesis by (simp add: algebra_simps)
  qed
  have x0: "0 \<le> x" unfolding x_def using assms(1) mpos by simp
  have x1: "x < 1" unfolding x_def using assms(2) mpos by simp
  have lo: "of_int n / 25 \<le> x"
  proof -
    have "(of_int (n * m) :: rat) \<le> of_int (25 * b)" using nm by (simp only: of_int_le_iff)
    then have "(of_int n :: rat) * of_int m \<le> 25 * of_int b" by simp
    then have "(of_int n :: rat) \<le> 25 * of_int b / of_int m"
      using mrat by (simp add: pos_le_divide_eq)
    then show ?thesis unfolding x_def by (simp add: mult.commute)
  qed
  have hi: "25 * x \<le> of_int (n + 1) - 1 / of_int m"
  proof -
    have "(of_int (25 * b + 1) :: rat) \<le> of_int ((n + 1) * m)"
      using nm1 by (simp only: of_int_le_iff)
    then have "25 * (of_int b :: rat) + 1 \<le> of_int (n + 1) * of_int m" by simp
    then have "(25 * (of_int b :: rat) + 1) / of_int m \<le> of_int (n + 1)"
      using mrat by (simp add: pos_divide_le_eq)
    then show ?thesis unfolding x_def by (simp add: add_divide_distrib)
  qed
  have qlo: "round_double (of_int n / 25) \<le> q" unfolding q_def using lo by (rule round_double_mono)
  have zlo: "of_int n \<le> round_double (25 * q)"
  proof -
    have "of_int n \<le> round_double (25 * round_double (of_int n / 25))"
      using n0 n24 by (rule unit_steps)
    also have "\<dots> \<le> round_double (25 * q)" using qlo by (intro round_double_mono) simp
    finally show ?thesis .
  qed
  have qhi: "q \<le> x + 1 / 2 ^ 54" unfolding q_def using x0 x1 by (rule round_double_unit_err)
  have minv: "1 / 2 ^ 47 \<le> 1 / (of_int m :: rat)"
  proof -
    have "(of_int m :: rat) \<le> of_int (2 ^ 47)" using assms(3) by (simp only: of_int_le_iff)
    then have "(of_int m :: rat) \<le> 2 ^ 47" by simp
    then show ?thesis using mrat by (simp add: frac_le)
  qed
  define c :: rat where "c = of_int (n + 1) - 1 / 2 ^ 48"
  have yhi: "25 * q \<le> c"
  proof -
    have "25 * q \<le> 25 * x + 25 / 2 ^ 54" using qhi by simp
    also have "\<dots> \<le> of_int (n + 1) - 1 / of_int m + 25 / 2 ^ 54" using hi by simp
    also have "\<dots> \<le> of_int (n + 1) - 1 / 2 ^ 47 + 25 / 2 ^ 54" using minv by simp
    also have "\<dots> \<le> c" unfolding c_def by simp
    finally show ?thesis .
  qed
  have cgrid: "round_double c = c"
  proof (rule round_double_grid [of _ "- 48" "(n + 1) * 2 ^ 48 - 1"])
    have "(1::rat) \<le> of_int (n + 1)" using n0 by simp
    then show "0 < c" unfolding c_def by simp
    show "- 1074 \<le> (- 48 :: int)" by simp
    have "(of_int (n + 1) :: rat) \<le> of_int 25" using n24 by (simp only: of_int_le_iff)
    then have "(of_int (n + 1) :: rat) \<le> 25" by simp
    then show "c < 2 ^ 53 * 2 powi (- 48)" unfolding c_def by (simp add: power_int_minus)
    show "c = of_int ((n + 1) * 2 ^ 48 - 1) * 2 powi (- 48)"
      unfolding c_def by (simp add: power_int_minus field_simps)
  qed
  have zhi: "round_double (25 * q) \<le> c"
    using round_double_mono [OF yhi] unfolding cgrid .
  have z1: "round_double (25 * q) < of_int n + 1"
    using zhi unfolding c_def by simp
  have fl: "\<lfloor>round_double (25 * q)\<rfloor> = n" using zlo z1 by (intro floor_unique) simp_all
  have z0: "0 \<le> round_double (25 * q)" using zlo n0 by (simp add: order_trans [of 0 "of_int n"])
  have u: "\<bar>of_int b / of_int m :: rat\<bar> \<le> 1" using assms(1,2) by (rule unit_ratio)
  have m0: "m \<noteq> 0" using mpos by simp
  from bonding_factor_partial(1) [OF assms(2) u m0]
  have "bonding_factor b m = Inr (py_trunc (round_double (25 * q)))"
    by (simp add: q_def x_def)
  also have "py_trunc (round_double (25 * q)) = n" using z0 fl by (simp add: py_trunc_def)
  finally show ?thesis by (simp add: n_def)
qed

lemma bonding_factor_huge: "bonding_factor (10 ^ 17 - 1) (10 ^ 17) = Inr 25"
proof -
  have ok: "ulp_ok ((10 ^ 17 - 1) / 10 ^ 17) (- 53)"
    by (simp add: ulp_ok_def power_int_minus)
  have r: "rne ((10 ^ 17 - 1) / 10 ^ 17 / 2 powi (- 53)) = 2 ^ 53"
    by (rule rne_eqI) (simp_all add: power_int_minus)
  have "round_double ((10 ^ 17 - 1) / 10 ^ 17) = of_int (2 ^ 53) * 2 powi (- 53)"
    by (rule round_double_eval [OF _ ok r]) simp
  then have q: "round_double ((10 ^ 17 - 1) / 10 ^ 17) = 1" by (simp add: power_int_minus)
  have u: "\<bar>of_int (10 ^ 17 - 1) / of_int (10 ^ 17) :: rat\<bar> \<le> 1" by simp
  have "bonding_factor (10 ^ 17 - 1) (10 ^ 17) =
          Inr (py_trunc (round_double (25 * round_double (of_int (10 ^ 17 - 1) / of_int (10 ^ 17)))))"
    by (rule bonding_factor_partial(1) [OF _ u]) simp_all
  also have "(of_int (10 ^ 17 - 1) / of_int (10 ^ 17) :: rat) = (10 ^ 17 - 1) / 10 ^ 17" by simp
  finally show ?thesis unfolding q by (simp add: round_double_25 py_trunc_def)
qed

text \<open>
  Claim C6, as stated, fails: the factor is \<^verbatim>\<open>int(25 * (b / m))\<close> in double arithmetic. For
  \<open>b = 10 ^ 17 - 1\<close> and \<open>m = 10 ^ 17\<close> the quotient rounds to \<open>1.0\<close> and the factor is 25,
  while \<open>floor(25 * b / m)\<close> is 24.
\<close>

theorem bonding_factor_floor_counterexample:
  "bonding_factor (10 ^ 17 - 1) (10 ^ 17) = Inr 25
   \<and> (25 * (10 ^ 17 - 1)) div (10 ^ 17) = (24::int)"
  using bonding_factor_huge by simp

text \<open>
  Claim C6, amended. For all bond amounts \<open>b\<close> and every minimum \<open>m > 0\<close>: if \<open>b \<ge> m\<close> the
  bonding factor is exactly 25; if \<open>0 \<le> b < m\<close> the factor is returned, lies between 0 and 25
  and, for every \<open>m \<le> 2 ^ 47\<close>, equals \<open>floor(25 * b / m)\<close>; and the factor is monotonically
  non-decreasing in \<open>b\<close>.
\<close>

theorem bonding_factor_spec:
  assumes "0 < min_bond"
  shows "(min_bond \<le> b \<longrightarrow> bonding_factor b min_bond = Inr 25)
       \<and> (0 \<le> b \<and> b < min_bond \<longrightarrow>
            (\<exists>f. bonding_factor b min_bond = Inr f \<and> 0 \<le> f \<and> f \<le> 25
                 \<and> (min_bond \<le> 2 ^ 47 \<longrightarrow> f = (25 * b) div min_bond)))
       \<and> (\<forall>b' f f'. b \<le> b' \<and> bonding_factor b min_bond = Inr f
              \<and> bonding_factor b' min_bond = Inr f' \<longrightarrow> f \<le> f')"
proof (intro conjI impI allI)
  assume "min_bond \<le> b"
  then show "bonding_factor b min_bond = Inr 25" by (rule bonding_factor_full)
next
  assume h: "0 \<le> b \<and> b < min_bond"
  then have b0: "0 \<le> b" and lt: "b < min_bond" by simp_all
  from assms have m0: "0 \<le> min_bond" by simp
  from bonding_factor_total [OF m0 b0]
  obtain f where f: "bonding_factor b min_bond = Inr f" and r: "0 \<le> f" "f \<le> 25" by blast
  have "f = (25 * b) div min_bond" if "min_bond \<le> 2 ^ 47"
    using bonding_factor_floor [OF b0 lt that] f by simp
  with f r show "\<exists>f. bonding_factor b min_bond = Inr f \<and> 0 \<le> f \<and> f \<le> 25
                 \<and> (min_bond \<le> 2 ^ 47 \<longrightarrow> f = (25 * b) div min_bond)" by blast
next
  fix b' f f'
  assume "b \<le> b' \<and> bonding_factor b min_bond = Inr f \<and> bonding_factor b' min_bond = Inr f'"
  then show "f \<le> f'" using bonding_factor_mono [OF assms] by blast
qed

theorem bonding_factor_spec_witness:
  "bonding_factor 5000000 5000000 = Inr 25
   \<and> bonding_factor 2500000 5000000 = Inr ((25 * 2500000) div 5000000)"
proof -
  have pos: "(0::int) < 5000000" by simp
  have full: "(5000000::int) \<le> 5000000" by simp
  have part: "(0::int) \<le> 2500000 \<and> (2500000::int) < 5000000" by simp
  have small: "(5000000::int) \<le> 2 ^ 47" by simp
  from bonding_factor_spec [OF pos, of 5000000] full
  have a: "bonding_factor 5000000 5000000 = Inr 25" by blast
  from bonding_factor_spec [OF pos, of 2500000] part small
  have b: "bonding_factor 2500000 5000000 = Inr ((25 * 2500000) div 5000000)"
    by blast
  from a b show ?thesis by blast
qed

end
